theory Spec2Isabelle
  imports Complex_Main "HOL-Library.Word" "HOL-Library.Sublist" "HOL-Library.Code_Target_Numeral"
begin

section \<open>The TCP throughput test of app/ipref.c\<close>

text \<open>
  The file app/ipref.c holds two routines, \<^verbatim>\<open>test_tcp_server\<close> and
  \<^verbatim>\<open>test_tcp_client\<close>. Both only call the sock API, the timer and stdio; what
  they do is the sequence of those calls. The model therefore records every call in a
  trace of events, and takes the values the calls return from a script: the results of
  the successive calls, in the order the routine makes them. Both routines loop for ever
  when nothing fails; a finite script describes a finite prefix of a run, and a routine
  that has used up its script is still inside its loop (outcomes \<open>In_accept\<close>,
  \<open>In_read\<close>, \<open>In_stream\<close>), as opposed to having returned.
\<close>

subsection \<open>Data\<close>

type_synonym u8 = "8 word"
type_synonym u32 = "32 word"
type_synonym u64 = "64 word"

subsection \<open>Single-precision arithmetic\<close>

text \<open>
  Line 109 computes in \<^verbatim>\<open>float\<close>. The model takes \<^verbatim>\<open>float\<close> to be IEEE 754
  binary32 with every conversion and operation rounded to nearest, ties to even (the
  arithmetic of the STM32 target, whose \<^verbatim>\<open>FLT_EVAL_METHOD\<close> is 0). A finite value
  is the real number it stands for (the sign of a zero is not kept); \<open>None\<close> stands
  for a result the model does not follow: an overflow, a division by zero, or an
  operation on such a result.

  A binary32 value is an integer of magnitude below \<open>2^24\<close> times \<open>2^e\<close> with
  \<open>-149 \<le> e \<le> 104\<close>. \<open>ulp_exponent 253 (-149) x\<close> is the exponent for the
  magnitude \<open>x\<close>: the least such \<open>e\<close> with \<open>x < 2^(e + 24)\<close>, found by counting up
  from \<open>-149\<close>, and 104 when there is none.
\<close>

type_synonym float32 = "real option"

fun ulp_exponent :: "nat \<Rightarrow> int \<Rightarrow> real \<Rightarrow> int" where
  "ulp_exponent 0 e x = e"
| "ulp_exponent (Suc n) e x = (if x < 2 powi (e + 24) then e else ulp_exponent n (e + 1) x)"

text \<open>The nearest integer, the even one of the two when \<open>y\<close> is half way.\<close>

definition round_even :: "real \<Rightarrow> int" where
  "round_even y =
     (let f = \<lfloor>y\<rfloor> in
      if y - of_int f < 1 / 2 then f
      else if 1 / 2 < y - of_int f then f + 1
      else if even f then f else f + 1)"

text \<open>Rounding a real to binary32; a result of magnitude \<open>2^128\<close> is an overflow.\<close>

definition round32 :: "real \<Rightarrow> float32" where
  "round32 x =
     (let e = ulp_exponent 253 (- 149) \<bar>x\<bar>;
          v = of_int (round_even (x / 2 powi e)) * 2 powi e
      in if \<bar>v\<bar> < 2 powi 128 then Some v else None)"

definition f_mul :: "float32 \<Rightarrow> float32 \<Rightarrow> float32" where
  "f_mul a b = (case (a, b) of (Some x, Some y) \<Rightarrow> round32 (x * y) | _ \<Rightarrow> None)"

definition f_div :: "float32 \<Rightarrow> float32 \<Rightarrow> float32" where
  "f_div a b =
     (case (a, b) of (Some x, Some y) \<Rightarrow> if y = 0 then None else round32 (x / y) | _ \<Rightarrow> None)"

subsection \<open>Calls and traces\<close>

text \<open>
  A connection handle: the client's global \<^verbatim>\<open>sock\<close>, or the object that
  \<^verbatim>\<open>sock_tcp_accept\<close> stores into the server's local pointer (numbered by the
  transport).
\<close>

datatype handle = Global_sock | Queued nat

text \<open>
  One event per call: the arguments that matter and the value the call returned.
  \<open>Sock_accept r h\<close>: the call returned \<open>r\<close> and, when \<open>0 \<le> r\<close>, stored \<open>h\<close>.
  \<open>Sock_read h n r\<close>: a read of at most \<open>n\<close> bytes on \<open>h\<close> returned \<open>r\<close>.
  \<open>Sock_write h d r\<close>: a write of the bytes \<open>d\<close> on \<open>h\<close> returned \<open>r\<close>.
  \<open>Printf_speed f\<close>: the call of \<^verbatim>\<open>printf\<close> with the format
  \<^verbatim>\<open>send speed = %.4f Mbps!\<close> and the value \<open>f\<close> (the digits it prints are not
  modelled).
\<close>

datatype event =
    Puts string
  | Printf_speed float32
  | Sock_listen nat nat int
  | Sock_accept int handle
  | Sock_read handle nat int
  | Sock_write handle "u8 list" int
  | Sock_connect handle string nat int
  | Sock_disconnect handle
  | Xtimer_now_usec u32

datatype outcome = Returned int | In_accept | In_read handle | In_stream

text \<open>\<^verbatim>\<open>#define SOCK_QUEUE_LEN (1U)\<close> and \<^verbatim>\<open>uint8_t buf[2 * 1024]\<close>.\<close>

definition SOCK_QUEUE_LEN :: nat where
  "SOCK_QUEUE_LEN = 1"

definition buf_size :: nat where
  "buf_size = 2 * 1024"

text \<open>The literal \<^verbatim>\<open>"Hello!"\<close> with its terminator: \<^verbatim>\<open>sizeof("Hello!")\<close> is 7.\<close>

definition hello :: "u8 list" where
  "hello = map (of_nat \<circ> of_char) ''Hello!'' @ [0]"

subsection \<open>The server: \<^verbatim>\<open>test_tcp_server\<close>\<close>

text \<open>
  The inner loop (lines 42 to 67): \<^verbatim>\<open>while (read_res >= 0)\<close>, entered with
  \<open>read_res = 0\<close>. Each turn reads into \<^verbatim>\<open>buf\<close>; a negative result prints
  \<^verbatim>\<open>Disconnected\<close> and breaks, any other result goes round again (the received
  bytes are not looked at). The script \<open>rs\<close> holds the results of the reads to come;
  \<open>drain\<close> returns the trace and what is left of the script, or \<open>None\<close> when the
  script ends inside the loop.
\<close>

fun drain :: "handle \<Rightarrow> event list \<Rightarrow> int list \<Rightarrow> event list \<times> int list option" where
  "drain h tr [] = (tr, None)"
| "drain h tr (r # rs) =
     (if r < 0 then (tr @ [Sock_read h buf_size r, Puts ''Disconnected''], Some rs)
      else drain h (tr @ [Sock_read h buf_size r]) rs)"

text \<open>
  The outer loop (lines 29 to 70): \<^verbatim>\<open>while (1)\<close> with no \<^verbatim>\<open>break\<close> and no
  \<^verbatim>\<open>return\<close> in its body. The script \<open>accs\<close> holds, for each accept to come, its
  result and the handle it stores.
\<close>

fun accept_loop :: "event list \<Rightarrow> (int \<times> handle) list \<Rightarrow> int list \<Rightarrow> event list \<times> outcome" where
  "accept_loop tr [] rs = (tr, In_accept)"
| "accept_loop tr ((a, h) # accs) rs =
     (if a < 0 then accept_loop (tr @ [Sock_accept a h, Puts ''Error accepting new sock'']) accs rs
      else
        (case drain h (tr @ [Sock_accept a h, Puts ''Reading data'']) rs of
           (tr', None) \<Rightarrow> (tr', In_read h)
         | (tr', Some rs') \<Rightarrow> accept_loop (tr' @ [Sock_disconnect h]) accs rs'))"

text \<open>
  The routine (lines 10 to 73). \<open>l\<close> is the result of \<^verbatim>\<open>sock_tcp_listen\<close> on port
  12345 with a queue of \<open>SOCK_QUEUE_LEN\<close>.
\<close>

definition test_tcp_server :: "int \<Rightarrow> (int \<times> handle) list \<Rightarrow> int list \<Rightarrow> event list \<times> outcome" where
  "test_tcp_server l accs rs =
     (if l < 0 then ([Sock_listen 12345 SOCK_QUEUE_LEN l, Puts ''Error creating listening queue''], Returned 1)
      else accept_loop [Sock_listen 12345 SOCK_QUEUE_LEN l, Puts ''Listening on port 12345''] accs rs)"

subsection \<open>The client: \<^verbatim>\<open>test_tcp_client\<close>\<close>

text \<open>
  The variables of the routine that outlive one statement, the global \<^verbatim>\<open>buf\<close>, and
  the trace so far. (\<^verbatim>\<open>res\<close> is assigned by every write and read only right after
  it; the functions below pass it on as a value.)
\<close>

record client_state =
  sentlen :: u64
  tick1 :: u32
  tick2 :: u32
  buf :: "u8 list"
  trace :: "event list"

definition emit :: "event \<Rightarrow> client_state \<Rightarrow> client_state" where
  "emit e st = st\<lparr>trace := trace st @ [e]\<rparr>"

text \<open>
  Line 109: \<^verbatim>\<open>(float)sentlen * 8 * 1000 * 1000 / 1024 / 1024 / (tick2 - tick1)\<close>.
  The operators associate to the left; \<^verbatim>\<open>sentlen\<close> is converted by the cast, and
  each integer operand is converted to \<^verbatim>\<open>float\<close> because the other operand is one.
\<close>

definition speed :: "u64 \<Rightarrow> u32 \<Rightarrow> float32" where
  "speed s d =
     f_div (f_div (f_div (f_mul (f_mul (f_mul (round32 (real (unat s))) (round32 8))
       (round32 1000)) (round32 1000)) (round32 1024)) (round32 1024)) (round32 (real (unat d)))"

text \<open>
  Lines 106 to 113: read the clock into \<^verbatim>\<open>tick2\<close>; when the unsigned 32-bit
  difference \<^verbatim>\<open>tick2 - tick1\<close> has reached \<^verbatim>\<open>2000 * 1000\<close>, print the speed and
  start a new window.
\<close>

definition report_window :: "u32 \<Rightarrow> client_state \<Rightarrow> client_state" where
  "report_window now st =
     (let st1 = (emit (Xtimer_now_usec now) st)\<lparr>tick2 := now\<rparr> in
      if 2000 * 1000 \<le> tick2 st1 - tick1 st1
      then (emit (Printf_speed (speed (sentlen st1) (tick2 st1 - tick1 st1))) st1)
             \<lparr>tick1 := tick2 st1, sentlen := 0\<rparr>
      else st1)"

text \<open>
  Lines 114 to 121: write the whole of \<^verbatim>\<open>buf\<close>; a negative result prints and
  breaks (second component \<open>True\<close>), any other result adds \<^verbatim>\<open>sizeof(buf)\<close> to
  \<^verbatim>\<open>sentlen\<close>.
\<close>

definition stream_write :: "int \<Rightarrow> client_state \<Rightarrow> client_state \<times> bool" where
  "stream_write w st =
     (let st1 = emit (Sock_write Global_sock (buf st) w) st in
      if w < 0 then (emit (Puts ''Errored on write'') st1, True)
      else (st1\<lparr>sentlen := sentlen st1 + of_nat buf_size\<rparr>, False))"

text \<open>
  The loop of lines 104 to 122. Each turn takes from the script the value of the clock
  and the result of the write. The result is the state and, when the loop was left, the
  value of \<^verbatim>\<open>res\<close>.
\<close>

fun stream_loop :: "client_state \<Rightarrow> (u32 \<times> int) list \<Rightarrow> client_state \<times> int option" where
  "stream_loop st [] = (st, None)"
| "stream_loop st ((now, w) # env) =
     (case stream_write w (report_window now st) of
        (st', True) \<Rightarrow> (st', Some w)
      | (st', False) \<Rightarrow> stream_loop st' env)"

text \<open>
  Lines 81 to 87: the initial values of the locals, and \<^verbatim>\<open>buf\<close> after
  \<^verbatim>\<open>memset(buf, 97, sizeof(buf))\<close>, which overwrites the whole array whatever it
  held before.
\<close>

definition client_init :: client_state where
  "client_init = \<lparr>sentlen = 0, tick1 = 0, tick2 = 0, buf = replicate buf_size 97, trace = []\<rparr>"

text \<open>
  The routine (lines 75 to 137). \<open>c\<close> is the result of \<^verbatim>\<open>sock_tcp_connect\<close>,
  \<open>hw\<close> the result of the write of \<^verbatim>\<open>"Hello!"\<close>, \<open>now0\<close> the clock read at line 103,
  \<open>env\<close> the clock readings and write results of the turns of the loop.
\<close>

definition test_tcp_client :: "int \<Rightarrow> int \<Rightarrow> u32 \<Rightarrow> (u32 \<times> int) list \<Rightarrow> client_state \<times> outcome" where
  \<open>test_tcp_client c hw now0 env =
     (let st = emit (Sock_connect Global_sock ''192.168.1.102'' 12344 c) client_init in
      if c < 0 then (emit (Puts ''Error connecting sock'') st, Returned 1)
      else
        let st = emit (Puts ''Sending "Hello!"'') st;
            st = emit (Sock_write Global_sock hello hw) st
        in
          if hw < 0 then
            (emit (Sock_disconnect Global_sock) (emit (Puts ''Errored on write'') st), Returned hw)
          else
            (case stream_loop ((emit (Xtimer_now_usec now0) st)\<lparr>tick1 := now0\<rparr>) env of
               (st', None) \<Rightarrow> (st', In_stream)
             | (st', Some r) \<Rightarrow> (emit (Sock_disconnect Global_sock) st', Returned r)))\<close>

subsection \<open>Reading a trace\<close>

fun is_accept :: "event \<Rightarrow> bool" where
  "is_accept (Sock_accept r h) = True"
| "is_accept e = False"

fun is_read :: "event \<Rightarrow> bool" where
  "is_read (Sock_read h n r) = True"
| "is_read e = False"

fun is_write :: "event \<Rightarrow> bool" where
  "is_write (Sock_write h d r) = True"
| "is_write e = False"

fun is_disconnect :: "event \<Rightarrow> bool" where
  "is_disconnect (Sock_disconnect h) = True"
| "is_disconnect e = False"

text \<open>
  The reports of a trace are its \<^verbatim>\<open>printf\<close> events.
\<close>

fun is_report :: "event \<Rightarrow> bool" where
  "is_report (Printf_speed v) = True"
| "is_report e = False"

text \<open>
  The sizes of the successful writes of a trace, in order: for every write whose result is
  not negative, the number of bytes that the caller handed to it (the length of the data
  of the event, which is the third argument of \<^verbatim>\<open>sock_tcp_write\<close>), whatever
  count the write returned.
\<close>

fun write_sizes :: "event list \<Rightarrow> nat list" where
  "write_sizes [] = []"
| "write_sizes (Sock_write h d r # tr) = (if 0 \<le> r then length d # write_sizes tr else write_sizes tr)"
| "write_sizes (e # tr) = write_sizes tr"

text \<open>
  The handles a trace leaves open: a successful accept or connect adds its handle, a
  disconnect removes it.
\<close>

fun track :: "handle list \<Rightarrow> event \<Rightarrow> handle list" where
  "track hs (Sock_accept a h) = (if 0 \<le> a then hs @ [h] else hs)"
| "track hs (Sock_connect h addr port c) = (if 0 \<le> c then hs @ [h] else hs)"
| "track hs (Sock_disconnect h) = remove1 h hs"
| "track hs e = hs"

definition active :: "event list \<Rightarrow> handle list" where
  "active tr = foldl track [] tr"

text \<open>
  At no point of the trace is more than one handle open, and none is open when an accept
  is called.
\<close>

definition single_connection :: "event list \<Rightarrow> bool" where
  "single_connection tr \<longleftrightarrow>
     (\<forall>p. prefix p tr \<longrightarrow> length (active p) \<le> 1)
     \<and> (\<forall>p a h. prefix (p @ [Sock_accept a h]) tr \<longrightarrow> active p = [])"

text \<open>
  The turns of the stream loop that a script lets run: those before the first negative
  write result, and the turn of that result.
\<close>

definition executed :: "(u32 \<times> int) list \<Rightarrow> (u32 \<times> int) list" where
  "executed env = takeWhile (\<lambda>(t, w). 0 \<le> w) env @ take 1 (dropWhile (\<lambda>(t, w). 0 \<le> w) env)"

text \<open>The state of the client after the write of the greeting (line 97).\<close>

definition client_connected :: "int \<Rightarrow> int \<Rightarrow> client_state" where
  \<open>client_connected c hw =
     client_init\<lparr>trace := [Sock_connect Global_sock ''192.168.1.102'' 12344 c,
                            Puts ''Sending "Hello!"'', Sock_write Global_sock hello hw]\<rparr>\<close>

text \<open>
  The rate as the specification words it, for writes of the sizes \<open>sizes\<close> in a window
  of \<open>dt\<close> microseconds: the sum of the sizes times \<open>8 \<times> 10^6\<close>, over
  \<open>1024 \<times> 1024 \<times> dt\<close>.
\<close>

definition spec_rate :: "nat list \<Rightarrow> nat \<Rightarrow> real" where
  "spec_rate sizes dt = real (sum_list sizes) * 8 * 10 ^ 6 / (1024 * 1024 * real dt)"

text \<open>
  \<open>a\<close> is \<open>X\<close> up to \<open>k\<close> roundings: each rounding to binary32 changes a value by
  at most one part in \<open>2^24\<close>.
\<close>

definition rounded :: "nat \<Rightarrow> real \<Rightarrow> real \<Rightarrow> bool" where
  "rounded k X a \<longleftrightarrow> X * (1 - 1 / 2 ^ 24) ^ k \<le> a \<and> a \<le> X * (1 + 1 / 2 ^ 24) ^ k"

section \<open>Lemmas\<close>

subsection \<open>The loops of the server\<close>

lemma drain_shift:
  "drain h (tr @ tr') rs = (tr @ fst (drain h tr' rs), snd (drain h tr' rs))"
  by (induction rs arbitrary: tr') simp_all

lemma drain_from_empty:
  "drain h tr rs = (tr @ fst (drain h [] rs), snd (drain h [] rs))"
  using drain_shift [of h tr "[]" rs] by simp

lemma accept_loop_shift:
  "accept_loop (tr @ tr') accs rs =
     (tr @ fst (accept_loop tr' accs rs), snd (accept_loop tr' accs rs))"
proof (induction tr' accs rs rule: accept_loop.induct)
  case (1 tr' rs)
  show ?case by simp
next
  case (2 tr' a h accs rs)
  show ?case
  proof (cases "a < 0")
    case True
    with 2(1) show ?thesis by simp
  next
    case False
    let ?d = "drain h (tr' @ [Sock_accept a h, Puts ''Reading data'']) rs"
    have d: "drain h ((tr @ tr') @ [Sock_accept a h, Puts ''Reading data'']) rs
               = (tr @ fst ?d, snd ?d)"
      using drain_shift [of h tr "tr' @ [Sock_accept a h, Puts ''Reading data'']" rs] by simp
    show ?thesis
    proof (cases "snd ?d")
      case None
      with False d show ?thesis by (simp add: case_prod_beta)
    next
      case (Some rs')
      have "(fst ?d, snd ?d) = ?d" by simp
      from 2(2) [OF False this Some] Some False d
      show ?thesis by (simp add: case_prod_beta)
    qed
  qed
qed

lemma accept_loop_from_empty:
  "accept_loop tr accs rs = (tr @ fst (accept_loop [] accs rs), snd (accept_loop [] accs rs))"
  using accept_loop_shift [of tr "[]" accs rs] by simp

lemma drain_no_accept:
  "e \<in> set (fst (drain h tr rs)) \<Longrightarrow> is_accept e \<or> is_disconnect e \<Longrightarrow> e \<in> set tr"
proof (induction rs arbitrary: tr)
  case Nil
  then show ?case by simp
next
  case (Cons r rs)
  show ?case
  proof (cases "r < 0")
    case True
    with Cons.prems show ?thesis by auto
  next
    case False
    with Cons.prems have "e \<in> set (fst (drain h (tr @ [Sock_read h buf_size r]) rs))" by simp
    from Cons.IH [OF this Cons.prems(2)] Cons.prems(2) show ?thesis by auto
  qed
qed

lemma drain_events_plain:
  "e \<in> set (fst (drain h [] rs)) \<Longrightarrow> \<not> is_accept e \<and> \<not> is_disconnect e"
  using drain_no_accept [of e h "[]" rs] by auto

lemma drain_all_ok:
  "\<forall>r\<in>set rs. 0 \<le> r \<Longrightarrow> drain h tr rs = (tr @ map (Sock_read h buf_size) rs, None)"
  by (induction rs arbitrary: tr) simp_all

lemma drain_error:
  "\<forall>r\<in>set oks. 0 \<le> r \<Longrightarrow> r < 0 \<Longrightarrow>
     drain h tr (oks @ r # rs) =
       (tr @ map (Sock_read h buf_size) oks @ [Sock_read h buf_size r, Puts ''Disconnected''], Some rs)"
  by (induction oks arbitrary: tr) simp_all

lemma accept_loop_fail:
  "a < 0 \<Longrightarrow>
     accept_loop [] ((a, h) # accs) rs =
       (Sock_accept a h # Puts ''Error accepting new sock'' # fst (accept_loop [] accs rs),
        snd (accept_loop [] accs rs))"
  using accept_loop_from_empty [of "[Sock_accept a h, Puts ''Error accepting new sock'']" accs rs]
  by simp

lemma accept_loop_reading:
  "0 \<le> a \<Longrightarrow> snd (drain h [] rs) = None \<Longrightarrow>
     accept_loop [] ((a, h) # accs) rs =
       (Sock_accept a h # Puts ''Reading data'' # fst (drain h [] rs), In_read h)"
  using drain_from_empty [of h "[Sock_accept a h, Puts ''Reading data'']" rs]
  by simp

lemma accept_loop_closed:
  "0 \<le> a \<Longrightarrow> snd (drain h [] rs) = Some rs' \<Longrightarrow>
     accept_loop [] ((a, h) # accs) rs =
       (Sock_accept a h # Puts ''Reading data'' # fst (drain h [] rs)
          @ Sock_disconnect h # fst (accept_loop [] accs rs'),
        snd (accept_loop [] accs rs'))"
  using drain_from_empty [of h "[Sock_accept a h, Puts ''Reading data'']" rs]
    accept_loop_from_empty [of "Sock_accept a h # Puts ''Reading data'' # fst (drain h [] rs) @ [Sock_disconnect h]" accs rs']
  by simp

lemma accept_loop_never_returns:
  "snd (accept_loop tr accs rs) \<noteq> Returned v"
  by (induction tr accs rs rule: accept_loop.induct) (auto split: prod.splits option.splits)

lemma accept_loop_begins:
  "accept_loop [] accs rs = ([], In_accept)
   \<or> (\<exists>a h q. fst (accept_loop [] accs rs) = Sock_accept a h # q)"
proof (cases accs)
  case Nil
  then show ?thesis by simp
next
  case (Cons x accs')
  obtain a h where x: "x = (a, h)" by (cases x)
  show ?thesis
  proof (cases "a < 0")
    case True
    then show ?thesis using Cons x accept_loop_fail [of a h accs' rs] by simp
  next
    case False
    then show ?thesis
      using Cons x accept_loop_reading [of a h rs accs'] accept_loop_closed [of a h rs _ accs']
      by (cases "snd (drain h [] rs)") auto
  qed
qed

lemma split_after:
  "xs @ ys = p @ e # q \<Longrightarrow> e \<notin> set xs \<Longrightarrow> \<exists>p'. p = xs @ p' \<and> ys = p' @ e # q"
proof (induction xs arbitrary: p)
  case Nil
  then show ?case by simp
next
  case (Cons x xs)
  then show ?case by (cases p) auto
qed

lemma retry_after_failure:
  assumes "fst (accept_loop [] accs rs) = p @ Sock_accept a h # q" and "a < 0"
  shows "\<exists>q'. q = Puts ''Error accepting new sock'' # q' \<and>
           (q' = [] \<and> snd (accept_loop [] accs rs) = In_accept
            \<or> (\<exists>a' h' q''. q' = Sock_accept a' h' # q''))"
  using assms(1)
proof (induction accs arbitrary: rs p)
  case Nil
  then show ?case by simp
next
  case (Cons x accs)
  obtain a0 h0 where x: "x = (a0, h0)" by (cases x)
  show ?case
  proof (cases "a0 < 0")
    case True
    note eq = accept_loop_fail [OF True, of h0 accs rs]
    from Cons.prems have dec:
      "Sock_accept a0 h0 # Puts ''Error accepting new sock'' # fst (accept_loop [] accs rs)
         = p @ Sock_accept a h # q"
      by (simp add: x eq del: accept_loop.simps)
    show ?thesis
    proof (cases p)
      case Nil
      with dec have q: "q = Puts ''Error accepting new sock'' # fst (accept_loop [] accs rs)"
        by simp
      from accept_loop_begins [of accs rs] show ?thesis
        by (auto simp: q x eq simp del: accept_loop.simps)
    next
      case (Cons e p')
      with dec have dec': "Puts ''Error accepting new sock'' # fst (accept_loop [] accs rs)
         = p' @ Sock_accept a h # q" by simp
      then obtain p'' where "fst (accept_loop [] accs rs) = p'' @ Sock_accept a h # q"
        by (cases p') auto
      from Cons.IH [OF this] show ?thesis by (simp add: x eq del: accept_loop.simps)
    qed
  next
    case False
    then have a0: "0 \<le> a0" by simp
    have nin: "Sock_accept a h \<notin> set (fst (drain h0 [] rs))"
      using drain_events_plain [of "Sock_accept a h" h0 rs] by auto
    show ?thesis
    proof (cases "snd (drain h0 [] rs)")
      case None
      note eq = accept_loop_reading [OF a0 None, of accs]
      from Cons.prems have
        "Sock_accept a0 h0 # Puts ''Reading data'' # fst (drain h0 [] rs) = p @ Sock_accept a h # q"
        by (simp add: x eq del: accept_loop.simps)
      then have "Sock_accept a h \<in> set (Sock_accept a0 h0 # Puts ''Reading data'' # fst (drain h0 [] rs))"
        by simp
      with nin a0 assms(2) show ?thesis by auto
    next
      case (Some rs')
      note eq = accept_loop_closed [OF a0 Some, of accs]
      let ?pre = "Sock_accept a0 h0 # Puts ''Reading data'' # fst (drain h0 [] rs) @ [Sock_disconnect h0]"
      from Cons.prems have dec: "?pre @ fst (accept_loop [] accs rs') = p @ Sock_accept a h # q"
        by (simp add: x eq del: accept_loop.simps)
      have "Sock_accept a h \<notin> set ?pre"
        using nin a0 assms(2) by auto
      from split_after [OF dec this]
      obtain p' where "fst (accept_loop [] accs rs') = p' @ Sock_accept a h # q"
        by auto
      from Cons.IH [OF this] show ?thesis by (simp add: x eq del: accept_loop.simps)
    qed
  qed
qed

lemma accept_loop_all_fail:
  "\<forall>(a, h)\<in>set accs. a < 0 \<Longrightarrow>
     accept_loop tr accs rs =
       (tr @ concat (map (\<lambda>(a, h). [Sock_accept a h, Puts ''Error accepting new sock'']) accs),
        In_accept)"
  by (induction accs arbitrary: tr) auto

subsection \<open>Open handles\<close>

lemma active_snoc: "active (tr @ [e]) = track (active tr) e"
  by (simp add: active_def)

lemma single_connection_snoc:
  "single_connection tr \<Longrightarrow> length (track (active tr) e) \<le> 1 \<Longrightarrow>
     (is_accept e \<longrightarrow> active tr = []) \<Longrightarrow> single_connection (tr @ [e])"
  unfolding single_connection_def
  by (auto simp: active_snoc)

lemma drain_single:
  "single_connection tr \<Longrightarrow> active tr = [h'] \<Longrightarrow>
     single_connection (fst (drain h tr rs)) \<and> active (fst (drain h tr rs)) = [h']"
proof (induction rs arbitrary: tr)
  case Nil
  then show ?case by simp
next
  case (Cons r rs)
  let ?t1 = "tr @ [Sock_read h buf_size r]"
  have 1: "single_connection ?t1" "active ?t1 = [h']"
    using Cons.prems by (simp_all add: single_connection_snoc active_snoc)
  show ?case
  proof (cases "r < 0")
    case True
    have "single_connection (?t1 @ [Puts ''Disconnected''])" "active (?t1 @ [Puts ''Disconnected'']) = [h']"
      using 1 by (simp_all add: single_connection_snoc active_snoc del: append_assoc)
    with True show ?thesis by simp
  next
    case False
    with Cons.IH [OF 1] show ?thesis by simp
  qed
qed

lemma accept_loop_single:
  "single_connection tr \<Longrightarrow> active tr = [] \<Longrightarrow> single_connection (fst (accept_loop tr accs rs))"
proof (induction tr accs rs rule: accept_loop.induct)
  case (1 tr rs)
  then show ?case by simp
next
  case (2 tr a h accs rs)
  let ?t1 = "tr @ [Sock_accept a h]"
  have t1: "single_connection ?t1" "active ?t1 = (if 0 \<le> a then [h] else [])"
    using "2.prems" by (simp_all add: single_connection_snoc active_snoc)
  show ?case
  proof (cases "a < 0")
    case True
    let ?t2 = "?t1 @ [Puts ''Error accepting new sock'']"
    have "single_connection ?t2" "active ?t2 = []"
      using t1 True by (simp_all add: single_connection_snoc active_snoc del: append_assoc)
    then have "single_connection (fst (accept_loop ?t2 accs rs))"
      using 2(1) [OF True] by simp
    with True show ?thesis by simp
  next
    case False
    let ?t2 = "?t1 @ [Puts ''Reading data'']"
    have t2: "single_connection ?t2" "active ?t2 = [h]"
      using t1 False by (simp_all add: single_connection_snoc active_snoc del: append_assoc)
    note d = drain_single [OF t2, of h rs]
    show ?thesis
    proof (cases "snd (drain h ?t2 rs)")
      case None
      with False d show ?thesis by (simp add: case_prod_beta)
    next
      case (Some rs')
      let ?t3 = "fst (drain h ?t2 rs) @ [Sock_disconnect h]"
      have t3: "single_connection ?t3" "active ?t3 = []"
        using d by (simp_all add: single_connection_snoc active_snoc del: append_assoc)
      have "(fst (drain h ?t2 rs), snd (drain h ?t2 rs))
              = drain h (tr @ [Sock_accept a h, Puts ''Reading data'']) rs" by simp
      from 2(2) [OF False this Some] t3
      have "single_connection (fst (accept_loop ?t3 accs rs'))" by simp
      with False Some show ?thesis by (simp add: case_prod_beta)
    qed
  qed
qed

lemma single_connection_Nil: "single_connection []"
  by (simp add: single_connection_def active_def)

lemma quiet_event:
  "single_connection tr \<Longrightarrow> active tr = [] \<Longrightarrow> \<not> is_accept e \<Longrightarrow> track [] e = [] \<Longrightarrow>
     single_connection (tr @ [e]) \<and> active (tr @ [e]) = []"
  by (simp add: single_connection_snoc active_snoc)

subsection \<open>The loop of the client\<close>

lemma emit_simps:
  "trace (emit e st) = trace st @ [e]" "buf (emit e st) = buf st"
  "sentlen (emit e st) = sentlen st" "tick1 (emit e st) = tick1 st" "tick2 (emit e st) = tick2 st"
  by (simp_all add: emit_def)

lemma report_window_trace:
  "trace (report_window now st) =
     trace st @ (if 2000 * 1000 \<le> now - tick1 st
                 then [Xtimer_now_usec now, Printf_speed (speed (sentlen st) (now - tick1 st))]
                 else [Xtimer_now_usec now])"
  by (simp add: report_window_def Let_def emit_simps)

lemma report_window_buf: "buf (report_window now st) = buf st"
  by (simp add: report_window_def Let_def emit_simps)

lemma report_window_sentlen:
  "sentlen (report_window now st) = (if 2000 * 1000 \<le> now - tick1 st then 0 else sentlen st)"
  by (simp add: report_window_def Let_def emit_simps)

lemma report_window_tick1:
  "tick1 (report_window now st) = (if 2000 * 1000 \<le> now - tick1 st then now else tick1 st)"
  by (simp add: report_window_def Let_def emit_simps)

lemma report_window_tick2: "tick2 (report_window now st) = now"
  by (simp add: report_window_def Let_def emit_simps)

lemma stream_write_snd: "snd (stream_write w st) \<longleftrightarrow> w < 0"
  by (simp add: stream_write_def Let_def)

lemma stream_write_trace:
  "trace (fst (stream_write w st)) =
     trace st @ (if w < 0 then [Sock_write Global_sock (buf st) w, Puts ''Errored on write'']
                 else [Sock_write Global_sock (buf st) w])"
  by (simp add: stream_write_def Let_def emit_simps)

lemma stream_write_buf: "buf (fst (stream_write w st)) = buf st"
  by (simp add: stream_write_def Let_def emit_simps)

lemma stream_write_sentlen:
  "sentlen (fst (stream_write w st)) = (if w < 0 then sentlen st else sentlen st + of_nat buf_size)"
  by (simp add: stream_write_def Let_def emit_simps)

lemma stream_write_tick1: "tick1 (fst (stream_write w st)) = tick1 st"
  by (simp add: stream_write_def Let_def emit_simps)

lemma stream_loop_Cons:
  "stream_loop st ((now, w) # env) =
     (if w < 0 then (fst (stream_write w (report_window now st)), Some w)
      else stream_loop (fst (stream_write w (report_window now st))) env)"
  using stream_write_snd [of w "report_window now st"]
  by (cases "stream_write w (report_window now st)") auto

lemma stream_loop_buf: "buf (fst (stream_loop st env)) = buf st"
proof (induction env arbitrary: st)
  case Nil
  show ?case by simp
next
  case (Cons x env)
  obtain now w where x: "x = (now, w)" by (cases x)
  show ?case
    unfolding x stream_loop_Cons
    by (simp add: Cons.IH stream_write_buf report_window_buf)
qed

lemma stream_loop_writes:
  "filter is_write (trace (fst (stream_loop st env))) =
     filter is_write (trace st) @ map (\<lambda>(t, w). Sock_write Global_sock (buf st) w) (executed env)"
proof (induction env arbitrary: st)
  case Nil
  show ?case by (simp add: executed_def)
next
  case (Cons x env)
  obtain now w where x: "x = (now, w)" by (cases x)
  show ?case
    unfolding x stream_loop_Cons
    by (simp add: Cons.IH stream_write_buf report_window_buf stream_write_trace
        report_window_trace executed_def)
qed

lemma stream_loop_disconnects:
  "filter is_disconnect (trace (fst (stream_loop st env))) = filter is_disconnect (trace st)"
proof (induction env arbitrary: st)
  case Nil
  show ?case by simp
next
  case (Cons x env)
  obtain now w where x: "x = (now, w)" by (cases x)
  show ?case
    unfolding x stream_loop_Cons
    by (simp add: Cons.IH stream_write_trace report_window_trace)
qed

lemma stream_loop_exit:
  "snd (stream_loop st env) =
     (case dropWhile (\<lambda>(t, w). 0 \<le> w) env of [] \<Rightarrow> None | (t, w) # rest \<Rightarrow> Some w)"
proof (induction env arbitrary: st)
  case Nil
  show ?case by simp
next
  case (Cons x env)
  obtain now w where x: "x = (now, w)" by (cases x)
  show ?case
    unfolding x stream_loop_Cons
    by (simp add: Cons.IH)
qed

lemma stream_loop_exit_negative:
  "snd (stream_loop st env) = Some r \<Longrightarrow> r < 0"
proof (induction env arbitrary: st)
  case Nil
  then show ?case by simp
next
  case (Cons x env)
  obtain now w where x: "x = (now, w)" by (cases x)
  from Cons.prems Cons.IH show ?case
    unfolding x stream_loop_Cons
    by (auto split: if_splits)
qed

lemma stream_loop_extends: "\<exists>evs. trace (fst (stream_loop st env)) = trace st @ evs"
proof (induction env arbitrary: st)
  case Nil
  show ?case by simp
next
  case (Cons x env)
  obtain now w where x: "x = (now, w)" by (cases x)
  from Cons.IH [of "fst (stream_write w (report_window now st))"] show ?case
    unfolding x stream_loop_Cons by (auto simp: stream_write_trace report_window_trace)
qed

lemma turn_trace:
  "trace (fst (stream_write w (report_window t st))) =
     trace st @ Xtimer_now_usec t
       # (if 2000 * 1000 \<le> t - tick1 st then [Printf_speed (speed (sentlen st) (t - tick1 st))] else [])
       @ Sock_write Global_sock (buf st) w # (if w < 0 then [Puts ''Errored on write''] else [])"
  by (simp add: stream_write_trace report_window_trace report_window_buf)

lemma stream_loop_exit_trace:
  "snd (stream_loop st env) = Some r \<Longrightarrow>
     \<exists>evs. trace (fst (stream_loop st env)) =
       trace st @ evs @ [Sock_write Global_sock (buf st) r, Puts ''Errored on write'']"
proof (induction env arbitrary: st)
  case Nil
  then show ?case by simp
next
  case (Cons x env)
  obtain now w where x: "x = (now, w)" by (cases x)
  let ?st = "fst (stream_write w (report_window now st))"
  show ?case
  proof (cases "w < 0")
    case True
    with Cons.prems have "r = w" unfolding x stream_loop_Cons by simp
    with True show ?thesis
      unfolding x stream_loop_Cons by (simp add: turn_trace)
  next
    case False
    with Cons.prems have "snd (stream_loop ?st env) = Some r"
      unfolding x stream_loop_Cons by simp
    from Cons.IH [OF this] obtain evs where
      "trace (fst (stream_loop ?st env)) =
         trace ?st @ evs @ [Sock_write Global_sock (buf ?st) r, Puts ''Errored on write'']"
      by blast
    with False show ?thesis
      unfolding x stream_loop_Cons
      by (simp add: turn_trace stream_write_buf report_window_buf)
  qed
qed

lemma stream_loop_step:
  "stream_loop \<lparr>sentlen = s, tick1 = k, tick2 = k', buf = b, trace = tr\<rparr> ((t, w) # env) =
     (if 2000 * 1000 \<le> t - k
      then (if w < 0
            then (\<lparr>sentlen = 0, tick1 = t, tick2 = t, buf = b,
                   trace = tr @ [Xtimer_now_usec t, Printf_speed (speed s (t - k)),
                                 Sock_write Global_sock b w, Puts ''Errored on write'']\<rparr>, Some w)
            else stream_loop \<lparr>sentlen = of_nat buf_size, tick1 = t, tick2 = t, buf = b,
                   trace = tr @ [Xtimer_now_usec t, Printf_speed (speed s (t - k)),
                                 Sock_write Global_sock b w]\<rparr> env)
      else (if w < 0
            then (\<lparr>sentlen = s, tick1 = k, tick2 = t, buf = b,
                   trace = tr @ [Xtimer_now_usec t, Sock_write Global_sock b w,
                                 Puts ''Errored on write'']\<rparr>, Some w)
            else stream_loop \<lparr>sentlen = s + of_nat buf_size, tick1 = k, tick2 = t, buf = b,
                   trace = tr @ [Xtimer_now_usec t, Sock_write Global_sock b w]\<rparr> env))"
  by (simp add: stream_write_def report_window_def emit_def Let_def)

lemma dropWhile_first_failure:
  "\<forall>(t, w)\<in>set oks. 0 \<le> w \<Longrightarrow> w < 0 \<Longrightarrow>
     dropWhile (\<lambda>(t, w). 0 \<le> (w::int)) (oks @ (t, w) # rest) = (t, w) # rest
     \<and> takeWhile (\<lambda>(t, w). 0 \<le> w) (oks @ (t, w) # rest) = oks"
  by (induction oks) auto

lemma executed_first_failure:
  "\<forall>(t, w)\<in>set oks. 0 \<le> w \<Longrightarrow> w < 0 \<Longrightarrow> executed (oks @ (t, w) # rest) = oks @ [(t, w)]"
  by (simp add: executed_def dropWhile_first_failure)

lemma client_connect_failed:
  "c < 0 \<Longrightarrow> test_tcp_client c hw now0 env =
     (client_init\<lparr>trace := [Sock_connect Global_sock ''192.168.1.102'' 12344 c,
                            Puts ''Error connecting sock'']\<rparr>, Returned 1)"
  by (simp add: test_tcp_client_def emit_def client_init_def)

lemma client_hello_failed:
  "0 \<le> c \<Longrightarrow> hw < 0 \<Longrightarrow> test_tcp_client c hw now0 env =
     ((client_connected c hw)\<lparr>trace := trace (client_connected c hw) @
          [Puts ''Errored on write'', Sock_disconnect Global_sock]\<rparr>, Returned hw)"
  by (simp add: test_tcp_client_def emit_def client_init_def client_connected_def)

lemma client_streaming:
  "0 \<le> c \<Longrightarrow> 0 \<le> hw \<Longrightarrow> test_tcp_client c hw now0 env =
     (let r = stream_loop ((client_connected c hw)\<lparr>tick1 := now0,
                 trace := trace (client_connected c hw) @ [Xtimer_now_usec now0]\<rparr>) env
      in case snd r of None \<Rightarrow> (fst r, In_stream)
         | Some v \<Rightarrow> (emit (Sock_disconnect Global_sock) (fst r), Returned v))"
  by (simp add: test_tcp_client_def emit_def client_init_def client_connected_def Let_def
      split: prod.splits option.splits)

lemma executed_Nil_iff: "executed env = [] \<longleftrightarrow> env = []"
  by (cases env) (auto simp: executed_def)

lemma client_writes:
  "0 \<le> c \<Longrightarrow> 0 \<le> hw \<Longrightarrow>
     filter is_write (trace (fst (test_tcp_client c hw now0 env))) =
       Sock_write Global_sock hello hw
         # map (\<lambda>(t, w). Sock_write Global_sock (replicate buf_size 97) w) (executed env)"
  by (simp add: client_streaming Let_def stream_loop_writes emit_simps client_connected_def
      client_init_def split: option.splits)

lemma client_returned:
  "0 \<le> c \<Longrightarrow> 0 \<le> hw \<Longrightarrow>
     snd (test_tcp_client c hw now0 env) =
       (case dropWhile (\<lambda>(t, w). 0 \<le> w) env of [] \<Rightarrow> In_stream | (t, w) # rest \<Rightarrow> Returned w)"
proof -
  assume c: "0 \<le> c" and hw: "0 \<le> hw"
  let ?st = "(client_connected c hw)\<lparr>tick1 := now0,
                 trace := trace (client_connected c hw) @ [Xtimer_now_usec now0]\<rparr>"
  have 1: "snd (test_tcp_client c hw now0 env) =
      (case snd (stream_loop ?st env) of None \<Rightarrow> In_stream | Some v \<Rightarrow> Returned v)"
    by (simp add: client_streaming [OF c hw] Let_def split: option.splits)
  show ?thesis
    unfolding 1 stream_loop_exit
    by (cases "dropWhile (\<lambda>(t, w). 0 \<le> w) env") (auto simp del: dropWhile_eq_Nil_conv)
qed

lemma client_buf: "buf (fst (test_tcp_client c hw now0 env)) = replicate buf_size 97"
proof (cases "c < 0")
  case True
  then show ?thesis by (simp add: client_connect_failed client_init_def)
next
  case c: False
  show ?thesis
  proof (cases "hw < 0")
    case True
    with c show ?thesis by (simp add: client_hello_failed client_connected_def client_init_def)
  next
    case False
    with c show ?thesis
      by (simp add: client_streaming Let_def stream_loop_buf emit_simps client_connected_def
          client_init_def split: option.splits)
  qed
qed

subsection \<open>Disconnects\<close>

lemma drain_events_filter:
  "filter is_disconnect (fst (drain h [] rs)) = []"
  "filter is_accept (fst (drain h [] rs)) = []"
  "takeWhile (\<lambda>e. \<not> is_accept e) (fst (drain h [] rs) @ xs)
     = fst (drain h [] rs) @ takeWhile (\<lambda>e. \<not> is_accept e) xs"
  "takeWhile (\<lambda>e. \<not> is_accept e) (fst (drain h [] rs)) = fst (drain h [] rs)"
  using drain_events_plain [of _ h rs]
  by (auto simp: filter_empty_conv takeWhile_eq_all_conv intro!: takeWhile_append2)

lemma disconnect_after_drain:
  assumes "fst (accept_loop [] accs rs) = p @ Sock_accept a h # q" and "0 \<le> a"
  shows "filter is_disconnect (takeWhile (\<lambda>e. \<not> is_accept e) q) =
           (if snd (accept_loop [] accs rs) = In_read h \<and> filter is_accept q = [] then []
            else [Sock_disconnect h])"
  using assms(1)
proof (induction accs arbitrary: rs p)
  case Nil
  then show ?case by simp
next
  case (Cons x accs)
  obtain a0 h0 where x: "x = (a0, h0)" by (cases x)
  show ?case
  proof (cases "a0 < 0")
    case True
    note eq = accept_loop_fail [OF True, of h0 accs rs]
    from Cons.prems have dec:
      "[Sock_accept a0 h0, Puts ''Error accepting new sock''] @ fst (accept_loop [] accs rs)
         = p @ Sock_accept a h # q"
      by (simp add: x eq del: accept_loop.simps)
    have "Sock_accept a h \<notin> set [Sock_accept a0 h0, Puts ''Error accepting new sock'']"
      using True assms(2) by auto
    from split_after [OF dec this]
    obtain p' where "fst (accept_loop [] accs rs) = p' @ Sock_accept a h # q"
      by auto
    from Cons.IH [OF this] show ?thesis by (simp add: x eq del: accept_loop.simps)
  next
    case False
    then have a0: "0 \<le> a0" by simp
    have nin: "Sock_accept a h \<notin> set (fst (drain h0 [] rs))"
      using drain_events_plain [of "Sock_accept a h" h0 rs] by auto
    show ?thesis
    proof (cases "snd (drain h0 [] rs)")
      case None
      note eq = accept_loop_reading [OF a0 None, of accs]
      from Cons.prems have dec:
        "Sock_accept a0 h0 # Puts ''Reading data'' # fst (drain h0 [] rs) = p @ Sock_accept a h # q"
        by (simp add: x eq del: accept_loop.simps)
      have "p = []"
      proof (rule ccontr)
        assume "p \<noteq> []"
        then obtain e p' where "p = e # p'" by (cases p) auto
        with dec have "Puts ''Reading data'' # fst (drain h0 [] rs) = p' @ Sock_accept a h # q"
          by simp
        then have "set (Puts ''Reading data'' # fst (drain h0 [] rs)) = set (p' @ Sock_accept a h # q)"
          by (rule arg_cong)
        then have "Sock_accept a h \<in> set (Puts ''Reading data'' # fst (drain h0 [] rs))"
          by simp
        with nin show False by simp
      qed
      with dec have "a = a0" "h = h0" "q = Puts ''Reading data'' # fst (drain h0 [] rs)"
        by auto
      then show ?thesis
        by (simp add: x eq drain_events_filter del: accept_loop.simps)
    next
      case (Some rs')
      note eq = accept_loop_closed [OF a0 Some, of accs]
      let ?mid = "Puts ''Reading data'' # fst (drain h0 [] rs) @ [Sock_disconnect h0]"
      from Cons.prems have dec:
        "Sock_accept a0 h0 # ?mid @ fst (accept_loop [] accs rs') = p @ Sock_accept a h # q"
        by (simp add: x eq del: accept_loop.simps)
      have nmid: "Sock_accept a h \<notin> set ?mid"
        using nin by auto
      show ?thesis
      proof (cases p)
        case Nil
        with dec have *: "a = a0" "h = h0" "q = ?mid @ fst (accept_loop [] accs rs')"
          by auto
        from accept_loop_begins [of accs rs'] show ?thesis
        proof
          assume "accept_loop [] accs rs' = ([], In_accept)"
          then show ?thesis
            using drain_events_filter(3) [of h0 rs "[Sock_disconnect h0]"]
            by (simp add: * x eq drain_events_filter del: accept_loop.simps)
        next
          assume "\<exists>a h q. fst (accept_loop [] accs rs') = Sock_accept a h # q"
          then obtain a' h' q' where "fst (accept_loop [] accs rs') = Sock_accept a' h' # q'"
            by blast
          then show ?thesis
            using drain_events_filter(3) [of h0 rs "Sock_disconnect h0 # Sock_accept a' h' # q'"]
            by (simp add: * x eq drain_events_filter del: accept_loop.simps)
        qed
      next
        case (Cons e p0)
        with dec have "?mid @ fst (accept_loop [] accs rs') = p0 @ Sock_accept a h # q"
          by simp
        from split_after [OF this nmid]
        obtain p' where "fst (accept_loop [] accs rs') = p' @ Sock_accept a h # q"
          by auto
        from Cons.IH [OF this] show ?thesis by (simp add: x eq del: accept_loop.simps)
      qed
    qed
  qed
qed

lemma server_from_loop:
  "0 \<le> l \<Longrightarrow> test_tcp_server l accs rs =
     ([Sock_listen 12345 SOCK_QUEUE_LEN l, Puts ''Listening on port 12345'']
        @ fst (accept_loop [] accs rs), snd (accept_loop [] accs rs))"
  using accept_loop_from_empty
    [of "[Sock_listen 12345 SOCK_QUEUE_LEN l, Puts ''Listening on port 12345'']" accs rs]
  by (simp add: test_tcp_server_def)

lemma accept_loop_drained:
  "0 \<le> a \<Longrightarrow> \<forall>r\<in>set oks. 0 \<le> r \<Longrightarrow> r < 0 \<Longrightarrow>
     accept_loop tr ((a, h) # accs) (oks @ r # rs) =
       accept_loop (tr @ [Sock_accept a h, Puts ''Reading data''] @ map (Sock_read h buf_size) oks
          @ [Sock_read h buf_size r, Puts ''Disconnected'', Sock_disconnect h]) accs rs"
  by (simp add: drain_error)

lemma client_disconnects:
  "0 \<le> c \<Longrightarrow>
     filter is_disconnect (trace (fst (test_tcp_client c hw now0 env))) =
       (case snd (test_tcp_client c hw now0 env) of
          Returned r \<Rightarrow> [Sock_disconnect Global_sock] | _ \<Rightarrow> [])"
proof (cases "hw < 0")
  case True
  assume "0 \<le> c"
  with True show ?thesis
    by (simp add: client_hello_failed client_connected_def client_init_def)
next
  case False
  assume "0 \<le> c"
  with False show ?thesis
    by (simp add: client_streaming Let_def stream_loop_disconnects emit_simps
        client_connected_def client_init_def split: option.splits)
qed

subsection \<open>Rounding\<close>

lemma ulp_exponent_range: "e \<le> ulp_exponent n e x \<and> ulp_exponent n e x \<le> e + int n"
proof (induction n arbitrary: e)
  case 0
  show ?case by simp
next
  case (Suc n)
  from Suc [of "e + 1"] show ?case by auto
qed

lemma ulp_exponent_upper:
  "ulp_exponent n e x < e + int n \<Longrightarrow> x < 2 powi (ulp_exponent n e x + 24)"
proof (induction n arbitrary: e)
  case 0
  then show ?case by simp
next
  case (Suc n)
  show ?case
  proof (cases "x < 2 powi (e + 24)")
    case True
    then show ?thesis by simp
  next
    case False
    with Suc.prems have "ulp_exponent n (e + 1) x < (e + 1) + int n" by simp
    from Suc.IH [OF this] False show ?thesis by simp
  qed
qed

lemma ulp_exponent_lower:
  "e < ulp_exponent n e x \<Longrightarrow> 2 powi (ulp_exponent n e x + 23) \<le> x"
proof (induction n arbitrary: e)
  case 0
  then show ?case by simp
next
  case (Suc n)
  show ?case
  proof (cases "x < 2 powi (e + 24)")
    case True
    with Suc.prems show ?thesis by simp
  next
    case False
    show ?thesis
    proof (cases "e + 1 < ulp_exponent n (e + 1) x")
      case True
      from Suc.IH [OF this] False show ?thesis by simp
    next
      case f: False
      with ulp_exponent_range [of "e + 1" n x] have "ulp_exponent n (e + 1) x = e + 1" by simp
      with False show ?thesis by (simp add: add.commute add.left_commute)
    qed
  qed
qed

lemma round_even_error: "\<bar>of_int (round_even y) - y\<bar> \<le> 1 / 2"
  unfolding round_even_def Let_def
  by (auto simp: abs_le_iff)

lemma round32_zero: "round32 0 = Some 0"
  by (simp add: round32_def round_even_def)

lemma round32_normal:
  assumes lo: "2 powi (- 126) \<le> x" and hi: "x < 2 powi 127"
  shows "\<exists>v. round32 x = Some v \<and> \<bar>v - x\<bar> \<le> x / 2 ^ 24"
proof -
  have "(0::real) < 2 powi (- 126)" by simp
  with lo have pos: "0 < x" by linarith
  define e where "e = ulp_exponent 253 (- 149) x"
  have range: "- 149 \<le> e" "e \<le> 104"
    using ulp_exponent_range [of "- 149" 253 x] by (simp_all add: e_def)
  have low: "2 powi (e + 23) \<le> x"
  proof (cases "e = - 149")
    case True
    with lo show ?thesis by simp
  next
    case False
    with range have "- 149 < ulp_exponent 253 (- 149) x" by (simp add: e_def)
    from ulp_exponent_lower [OF this] show ?thesis by (simp add: e_def)
  qed
  have "e \<noteq> 104"
  proof
    assume "e = 104"
    with low hi show False by simp
  qed
  with range have "ulp_exponent 253 (- 149) x < - 149 + int 253" by (simp add: e_def)
  from ulp_exponent_upper [OF this] have up: "x < 2 powi (e + 24)" by (simp add: e_def)
  define p where "p = (2::real) powi e"
  have p: "0 < p" by (simp add: p_def)
  have p23: "p * 2 ^ 23 \<le> x"
    using low by (simp add: p_def power_int_add)
  define m where "m = round_even (x / p)"
  define v where "v = real_of_int m * p"
  have "\<bar>real_of_int m - x / p\<bar> \<le> 1 / 2"
    unfolding m_def by (rule round_even_error)
  then have "\<bar>real_of_int m - x / p\<bar> * p \<le> 1 / 2 * p"
    using p by (intro mult_right_mono) simp_all
  moreover have "\<bar>real_of_int m - x / p\<bar> * p = \<bar>v - x\<bar>"
  proof -
    have "v - x = (real_of_int m - x / p) * p"
      using p by (simp add: v_def left_diff_distrib)
    then have "\<bar>v - x\<bar> = \<bar>real_of_int m - x / p\<bar> * \<bar>p\<bar>"
      by (simp only: abs_mult)
    with p show ?thesis by simp
  qed
  ultimately have err: "\<bar>v - x\<bar> \<le> p / 2" by simp
  also have "p / 2 \<le> x / 2 ^ 24" using p23 by simp
  finally have close: "\<bar>v - x\<bar> \<le> x / 2 ^ 24" .
  define d where "d = x / 2 ^ 24"
  have "\<bar>v - x\<bar> \<le> d" using close by (simp add: d_def)
  then have "\<bar>v\<bar> \<le> x + d" using pos by linarith
  also have "\<dots> < 2 * x" using pos by (simp add: d_def)
  also have "\<dots> < 2 powi 128" using hi by simp
  finally have fin: "\<bar>v\<bar> < 2 powi 128" .
  have "round32 x = Some v"
    using fin pos by (simp add: round32_def Let_def e_def [symmetric] p_def [symmetric]
        m_def [symmetric] v_def [symmetric])
  with close show ?thesis by blast
qed

lemma round_even_of_int: "round_even (of_int m) = m"
  by (simp add: round_even_def)

lemma round32_of_int:
  assumes "\<bar>n\<bar> < 2 ^ 24"
  shows "round32 (of_int n) = Some (of_int n)"
proof -
  define e where "e = ulp_exponent 253 (- 149) \<bar>real_of_int n\<bar>"
  have x: "\<bar>real_of_int n\<bar> < 2 ^ 24"
    using assms by (metis of_int_abs of_int_less_numeral_power_cancel_iff)
  have "e \<le> 0"
  proof (rule ccontr)
    assume "\<not> e \<le> 0"
    then have e: "1 \<le> e" by simp
    then have "- 149 < ulp_exponent 253 (- 149) \<bar>real_of_int n\<bar>" by (simp add: e_def)
    from ulp_exponent_lower [OF this] have "2 powi (e + 23) \<le> \<bar>real_of_int n\<bar>"
      by (simp add: e_def)
    moreover have "(2::real) powi 24 \<le> 2 powi (e + 23)"
      using e by (intro power_int_increasing) simp_all
    ultimately show False using x by simp
  qed
  define k where "k = nat (- e)"
  have p: "(2::real) powi e = 1 / 2 ^ k"
    using \<open>e \<le> 0\<close> by (cases "e = 0") (simp_all add: power_int_def k_def field_simps)
  have "real_of_int n / 2 powi e = of_int (n * 2 ^ k)" by (simp add: p)
  then have r: "round_even (real_of_int n / 2 powi e) = n * 2 ^ k"
    by (simp only: round_even_of_int)
  have v: "of_int (n * 2 ^ k) * 2 powi e = real_of_int n" by (simp add: p)
  have "\<bar>real_of_int n\<bar> < 2 powi 128" using x by simp
  then show ?thesis
    by (simp only: round32_def Let_def e_def [symmetric] r v if_True)
qed

lemma round32_consts: "round32 8 = Some 8" "round32 1000 = Some 1000" "round32 1024 = Some 1024"
  using round32_of_int [of 8] round32_of_int [of 1000] round32_of_int [of 1024] by simp_all

lemma rounded_refl: "rounded 0 X X"
  by (simp add: rounded_def)

lemma roundings_small:
  assumes "k \<le> 16"
  shows "1 / 2 \<le> (1 - 1 / 2 ^ 24 :: real) ^ k" and "(1 + 1 / 2 ^ 24 :: real) ^ k \<le> 2"
proof -
  have "(1 - 1 / 2 ^ 24 :: real) ^ 16 \<le> (1 - 1 / 2 ^ 24) ^ k"
    using assms by (intro power_decreasing) simp_all
  moreover have "1 / 2 \<le> (1 - 1 / 2 ^ 24 :: real) ^ 16" by (simp add: power_divide)
  ultimately show "1 / 2 \<le> (1 - 1 / 2 ^ 24 :: real) ^ k" by linarith
  have "(1 + 1 / 2 ^ 24 :: real) ^ k \<le> (1 + 1 / 2 ^ 24) ^ 16"
    using assms by (intro power_increasing) simp_all
  moreover have "(1 + 1 / 2 ^ 24 :: real) ^ 16 \<le> 2" by (simp add: power_divide)
  ultimately show "(1 + 1 / 2 ^ 24 :: real) ^ k \<le> 2" by linarith
qed

lemma rounded_round:
  assumes w: "rounded k X x" and k: "k \<le> 16"
    and lo: "1 / 2 ^ 100 \<le> X" and hi: "X \<le> 2 ^ 100"
  shows "\<exists>v. round32 x = Some v \<and> rounded (Suc k) X v"
proof -
  let ?l = "(1 - 1 / 2 ^ 24 :: real)" and ?h = "(1 + 1 / 2 ^ 24 :: real)"
  have "(0::real) < 1 / 2 ^ 100" by simp
  with lo have X: "0 < X" by linarith
  note small = roundings_small [OF k]
  from w have xl: "X * ?l ^ k \<le> x" and xh: "x \<le> X * ?h ^ k"
    by (simp_all add: rounded_def)
  have "X * (1 / 2) \<le> X * ?l ^ k" using X small(1) by (intro mult_left_mono) simp_all
  with xl have x_lo: "X / 2 \<le> x" by simp
  have "X * ?h ^ k \<le> X * 2" using X small(2) by (intro mult_left_mono) simp_all
  with xh have x_hi: "x \<le> 2 * X" by simp
  have "(2::real) powi (- 126) \<le> 1 / 2 ^ 100 / 2" by simp
  also have "\<dots> \<le> X / 2" using lo by simp
  finally have n1: "2 powi (- 126) \<le> x" using x_lo by simp
  have "x \<le> 2 * 2 ^ 100" using x_hi hi by simp
  also have "\<dots> < (2::real) powi 127" by simp
  finally have n2: "x < 2 powi 127" .
  from round32_normal [OF n1 n2] obtain v where v: "round32 x = Some v"
    and err: "\<bar>v - x\<bar> \<le> x / 2 ^ 24" by blast
  have x0: "0 \<le> x" using x_lo X by simp
  define d where "d = x / 2 ^ 24"
  have "\<bar>v - x\<bar> \<le> d" using err by (simp add: d_def)
  then have "x - d \<le> v" "v \<le> x + d" by linarith+
  moreover have "x * ?l = x - d" "x * ?h = x + d" by (simp_all add: d_def algebra_simps)
  ultimately have vl: "x * ?l \<le> v" and vh: "v \<le> x * ?h" by simp_all
  have "X * ?l ^ Suc k = (X * ?l ^ k) * ?l" by simp
  also have "\<dots> \<le> x * ?l" using xl by (intro mult_right_mono) simp_all
  finally have 1: "X * ?l ^ Suc k \<le> v" using vl by simp
  have "x * ?h \<le> (X * ?h ^ k) * ?h" using xh by (intro mult_right_mono) simp_all
  also have "\<dots> = X * ?h ^ Suc k" by simp
  finally have 2: "v \<le> X * ?h ^ Suc k" using vh by simp
  from v 1 2 show ?thesis unfolding rounded_def by blast
qed

lemma rounded_scale: "rounded k X a \<Longrightarrow> 0 \<le> c \<Longrightarrow> rounded k (X * c) (a * c)"
  unfolding rounded_def
  using mult_right_mono [of "X * (1 - 1 / 2 ^ 24) ^ k" a c]
    mult_right_mono [of a "X * (1 + 1 / 2 ^ 24) ^ k" c]
  by (simp add: mult.assoc mult.commute mult.left_commute)

lemma rounded_shrink: "rounded k X a \<Longrightarrow> 0 < c \<Longrightarrow> rounded k (X / c) (a / c)"
  using rounded_scale [of k X a "1 / c"] by simp

lemma rounded_quot:
  assumes a: "rounded k X a" and b: "rounded 1 Y b" and X: "0 \<le> X" and Y: "0 < Y"
  shows "rounded (k + 2) (X / Y) (a / b) \<and> b \<noteq> 0"
proof -
  define l h :: real where "l = 1 - 1 / 2 ^ 24" and "h = 1 + 1 / 2 ^ 24"
  have l0: "0 < l" and h0: "0 < h" and lh: "l * l \<le> 1 / h" and hl: "1 / l \<le> h * h"
    by (simp_all add: l_def h_def)
  from a have al: "X * l ^ k \<le> a" and ah: "a \<le> X * h ^ k"
    by (simp_all add: rounded_def l_def h_def)
  from b have bl: "Y * l \<le> b" and bh: "b \<le> Y * h"
    by (simp_all add: rounded_def l_def h_def)
  have yl: "0 < Y * l" using Y l0 by simp
  have b0: "0 < b" using bl yl by linarith
  have a0: "0 \<le> X * l ^ k" using X l0 by simp
  have a1: "0 \<le> a" using a0 al by linarith
  have h1: "0 \<le> X * h ^ k" using X h0 by simp
  have "X * l ^ k / (Y * h) \<le> a / b"
    using a1 al b0 bh by (rule frac_le)
  moreover have "X / Y * l ^ (k + 2) \<le> X * l ^ k / (Y * h)"
  proof -
    have "0 \<le> X / Y * l ^ k" using X Y l0 by simp
    then have m: "(X / Y * l ^ k) * (l * l) \<le> (X / Y * l ^ k) * (1 / h)"
      using lh by (rule mult_left_mono [rotated])
    have e1: "X / Y * l ^ (k + 2) = (X / Y * l ^ k) * (l * l)"
      by (simp add: power_add power2_eq_square)
    have e2: "(X / Y * l ^ k) * (1 / h) = X * l ^ k / (Y * h)" by simp
    from m show ?thesis by (simp only: e1 e2)
  qed
  ultimately have 1: "X / Y * l ^ (k + 2) \<le> a / b" by linarith
  have "a / b \<le> X * h ^ k / (Y * l)"
    using h1 ah yl bl by (rule frac_le)
  moreover have "X * h ^ k / (Y * l) \<le> X / Y * h ^ (k + 2)"
  proof -
    have "0 \<le> X / Y * h ^ k" using X Y h0 by simp
    then have m: "(X / Y * h ^ k) * (1 / l) \<le> (X / Y * h ^ k) * (h * h)"
      using hl by (rule mult_left_mono [rotated])
    have e1: "X / Y * h ^ (k + 2) = (X / Y * h ^ k) * (h * h)"
      by (simp add: power_add power2_eq_square)
    have e2: "(X / Y * h ^ k) * (1 / l) = X * h ^ k / (Y * l)" by simp
    from m show ?thesis by (simp only: e1 e2)
  qed
  ultimately have 2: "a / b \<le> X / Y * h ^ (k + 2)" by linarith
  from 1 2 b0 show ?thesis by (simp add: rounded_def l_def h_def)
qed

lemma rounded_9:
  assumes "rounded 9 X v" and "0 \<le> X"
  shows "\<bar>v - X\<bar> \<le> X / 2 ^ 20"
proof -
  let ?l = "(1 - 1 / 2 ^ 24 :: real)" and ?h = "(1 + 1 / 2 ^ 24 :: real)"
  have "1 - 1 / 2 ^ 20 \<le> ?l ^ 9" by (simp add: power_divide)
  then have "X * (1 - 1 / 2 ^ 20) \<le> X * ?l ^ 9"
    using assms(2) by (rule mult_left_mono)
  moreover have "?h ^ 9 \<le> 1 + 1 / 2 ^ 20" by (simp add: power_divide)
  then have "X * ?h ^ 9 \<le> X * (1 + 1 / 2 ^ 20)"
    using assms(2) by (rule mult_left_mono)
  ultimately have "X * (1 - 1 / 2 ^ 20) \<le> v" "v \<le> X * (1 + 1 / 2 ^ 20)"
    using assms(1) by (simp_all add: rounded_def)
  moreover define d where "d = X / 2 ^ 20"
  moreover have "X * (1 - 1 / 2 ^ 20) = X - d" "X * (1 + 1 / 2 ^ 20) = X + d"
    by (simp_all add: d_def algebra_simps)
  ultimately have "X - d \<le> v" "v \<le> X + d" by simp_all
  then have "\<bar>v - X\<bar> \<le> d" by linarith
  then show ?thesis by (simp add: d_def)
qed

lemma f_ops:
  "f_mul (Some x) (Some y) = round32 (x * y)"
  "y \<noteq> 0 \<Longrightarrow> f_div (Some x) (Some y) = round32 (x / y)"
  by (simp_all add: f_mul_def f_div_def)

lemma speed_rounded:
  assumes S: "0 < unat s" and D: "2000000 \<le> unat d"
  shows "\<exists>v. speed s d = Some v
           \<and> rounded 9 (real (unat s) * 8 * 1000 * 1000 / 1024 / 1024 / real (unat d)) v"
proof -
  define S where "S = real (unat s)"
  define D where "D = real (unat d)"
  have "unat s < 2 ^ 64" using unsigned_less [of s, where 'a = nat] by simp
  then have "real (unat s) < real (2 ^ 64)" by (rule less_imp_of_nat_less)
  then have S_hi: "S < 2 ^ 64" by (simp add: S_def del: of_nat_unat)
  have "real 1 \<le> real (unat s)" using S by (intro of_nat_mono) simp
  then have S_lo: "1 \<le> S" by (simp add: S_def del: of_nat_unat)
  have "unat d < 2 ^ 32" using unsigned_less [of d, where 'a = nat] by simp
  then have "real (unat d) < real (2 ^ 32)" by (rule less_imp_of_nat_less)
  then have D_hi: "D < 2 ^ 32" by (simp add: D_def del: of_nat_unat)
  have "real 2000000 \<le> real (unat d)" using D by (rule of_nat_mono)
  then have D_lo: "2000000 \<le> D" by (simp add: D_def del: of_nat_unat)

  have "1 / 2 ^ 100 \<le> S" "S \<le> 2 ^ 100" using S_lo S_hi by simp_all
  from rounded_round [OF rounded_refl _ this]
  obtain f0 where f0: "round32 S = Some f0" "rounded 1 S f0" by auto

  have "1 / 2 ^ 100 \<le> S * 8" "S * 8 \<le> 2 ^ 100" using S_lo S_hi by simp_all
  from rounded_round [OF rounded_scale [OF f0(2), of 8] _ this]
  obtain f1 where f1: "round32 (f0 * 8) = Some f1" "rounded 2 (S * 8) f1"
    by (auto simp: numeral_2_eq_2)

  have "1 / 2 ^ 100 \<le> S * 8 * 1000" "S * 8 * 1000 \<le> 2 ^ 100" using S_lo S_hi by simp_all
  from rounded_round [OF rounded_scale [OF f1(2), of 1000] _ this]
  obtain f2 where f2: "round32 (f1 * 1000) = Some f2" "rounded 3 (S * 8 * 1000) f2"
    by (auto simp: numeral_3_eq_3)

  have "1 / 2 ^ 100 \<le> S * 8 * 1000 * 1000" "S * 8 * 1000 * 1000 \<le> 2 ^ 100"
    using S_lo S_hi by simp_all
  from rounded_round [OF rounded_scale [OF f2(2), of 1000] _ this]
  obtain f3 where f3: "round32 (f2 * 1000) = Some f3" "rounded (Suc 3) (S * 8 * 1000 * 1000) f3"
    by auto

  have "1 / 2 ^ 100 \<le> S * 8 * 1000 * 1000 / 1024" "S * 8 * 1000 * 1000 / 1024 \<le> 2 ^ 100"
    using S_lo S_hi by simp_all
  from rounded_round [OF rounded_shrink [OF f3(2), of 1024] _ this]
  obtain f4 where f4: "round32 (f3 / 1024) = Some f4"
    "rounded (Suc (Suc 3)) (S * 8 * 1000 * 1000 / 1024) f4"
    by auto

  define X where "X = S * 8 * 1000 * 1000 / 1024 / 1024"
  have X_lo: "1 \<le> X" and X_hi: "X \<le> 2 ^ 67" using S_lo S_hi by (simp_all add: X_def)
  have "1 / 2 ^ 100 \<le> X" "X \<le> 2 ^ 100" using X_lo X_hi by simp_all
  from rounded_round [OF rounded_shrink [OF f4(2), of 1024] _ this [unfolded X_def]]
  obtain f5 where f5: "round32 (f4 / 1024) = Some f5" "rounded (Suc (Suc (Suc 3))) X f5"
    by (auto simp: X_def)

  have "1 / 2 ^ 100 \<le> D" "D \<le> 2 ^ 100" using D_lo D_hi by simp_all
  from rounded_round [OF rounded_refl _ this]
  obtain g where g: "round32 D = Some g" "rounded 1 D g" by auto

  have X0: "0 \<le> X" and D0: "0 < D" using X_lo D_lo by simp_all
  from rounded_quot [OF f5(2) g(2) X0 D0]
  have q: "rounded 8 (X / D) (f5 / g)" and g0: "g \<noteq> 0"
    by (simp_all add: eval_nat_numeral)

  have "X / D \<le> X / 2000000"
    using D_lo X0 by (intro divide_left_mono) simp_all
  moreover have "X / 2000000 \<le> 2 ^ 100" using X_hi by simp
  ultimately have XD_hi: "X / D \<le> 2 ^ 100" by (rule order_trans)
  have "1 / 2 ^ 100 \<le> X / 2 ^ 32" using X_lo by simp
  moreover have "X / 2 ^ 32 \<le> X / D"
    using D_hi D0 X0 by (intro divide_left_mono) simp_all
  ultimately have XD_lo: "1 / 2 ^ 100 \<le> X / D" by (rule order_trans)
  from rounded_round [OF q _ XD_lo XD_hi]
  obtain v where v: "round32 (f5 / g) = Some v" "rounded 9 (X / D) v"
    by (auto simp: eval_nat_numeral)

  have "speed s d = Some v"
    using f0(1) f1(1) f2(1) f3(1) f4(1) f5(1) g(1) g0 v(1)
    by (simp add: speed_def round32_consts f_ops S_def [symmetric] D_def [symmetric]
        del: of_nat_unat)
  with v(2) show ?thesis by (auto simp: X_def S_def D_def simp del: of_nat_unat)
qed

lemma speed_zero:
  assumes S: "unat s = 0" and D: "2000000 \<le> unat d"
  shows "speed s d = Some 0"
proof -
  define D where "D = real (unat d)"
  have "unat d < 2 ^ 32" using unsigned_less [of d, where 'a = nat] by simp
  then have "real (unat d) < real (2 ^ 32)" by (rule less_imp_of_nat_less)
  then have D_hi: "D < 2 ^ 32" by (simp add: D_def del: of_nat_unat)
  have "real 2000000 \<le> real (unat d)" using D by (rule of_nat_mono)
  then have D_lo: "2000000 \<le> D" by (simp add: D_def del: of_nat_unat)
  have "1 / 2 ^ 100 \<le> D" "D \<le> 2 ^ 100" using D_lo D_hi by simp_all
  from rounded_round [OF rounded_refl _ this]
  obtain g where g: "round32 D = Some g" "rounded 1 D g" by auto
  have "0 < D * (1 - 1 / 2 ^ 24)" using D_lo by simp
  with g(2) have "g \<noteq> 0" by (simp add: rounded_def)
  with g(1) show ?thesis
    by (simp add: speed_def S round32_zero round32_consts f_ops D_def [symmetric]
        del: of_nat_unat)
qed

lemma speed_error:
  assumes "2000000 \<le> unat d"
  shows "\<exists>v. speed s d = Some v
           \<and> \<bar>v - real (unat s) * 8 * 1000 * 1000 / 1024 / 1024 / real (unat d)\<bar>
               \<le> real (unat s) * 8 * 1000 * 1000 / 1024 / 1024 / real (unat d) / 2 ^ 20"
proof (cases "unat s = 0")
  case True
  with speed_zero [OF True assms] show ?thesis by (simp del: of_nat_unat)
next
  case False
  then have "0 < unat s" by simp
  from speed_rounded [OF this assms] obtain v where v: "speed s d = Some v"
    "rounded 9 (real (unat s) * 8 * 1000 * 1000 / 1024 / 1024 / real (unat d)) v"
    by blast
  have "0 \<le> real (unat s) * 8 * 1000 * 1000 / 1024 / 1024 / real (unat d)"
    by (intro divide_nonneg_nonneg mult_nonneg_nonneg) (simp_all del: of_nat_unat)
  from rounded_9 [OF v(2) this] v(1) show ?thesis by blast
qed

lemma round32_exact:
  assumes m: "\<bar>m\<bar> < 2 ^ 24" and k: "- 149 \<le> k" "k \<le> 104"
  shows "round32 (of_int m * 2 powi k) = Some (of_int m * 2 powi k)"
proof -
  define x where "x = real_of_int m * 2 powi k"
  define e where "e = ulp_exponent 253 (- 149) \<bar>x\<bar>"
  have am: "\<bar>real_of_int m\<bar> < 2 ^ 24"
    using m by (metis of_int_abs of_int_less_numeral_power_cancel_iff)
  have ax: "\<bar>x\<bar> = \<bar>real_of_int m\<bar> * 2 powi k"
    by (simp add: x_def abs_mult)
  have xlt: "\<bar>x\<bar> < 2 powi (k + 24)"
  proof -
    have "\<bar>real_of_int m\<bar> * 2 powi k < 2 ^ 24 * 2 powi k"
      using am by (intro mult_strict_right_mono) simp_all
    then show ?thesis by (simp add: ax power_int_add)
  qed
  have "e \<le> k"
  proof (rule ccontr)
    assume "\<not> e \<le> k"
    then have e: "k + 1 \<le> e" by simp
    with k have "- 149 < ulp_exponent 253 (- 149) \<bar>x\<bar>" by (simp add: e_def)
    from ulp_exponent_lower [OF this] have "2 powi (e + 23) \<le> \<bar>x\<bar>" by (simp add: e_def)
    moreover have "(2::real) powi (k + 24) \<le> 2 powi (e + 23)"
      using e by (intro power_int_increasing) simp_all
    ultimately show False using xlt by simp
  qed
  define j where "j = nat (k - e)"
  have p: "(2::real) powi k = 2 ^ j * 2 powi e"
  proof -
    have "(2::real) powi k = 2 powi (int j + e)" using \<open>e \<le> k\<close> by (simp add: j_def)
    also have "\<dots> = 2 powi (int j) * 2 powi e" by (simp add: power_int_add)
    finally show ?thesis by simp
  qed
  have "x / 2 powi e = of_int (m * 2 ^ j)" by (simp add: x_def p)
  then have r: "round_even (x / 2 powi e) = m * 2 ^ j"
    by (simp only: round_even_of_int)
  have v: "of_int (m * 2 ^ j) * 2 powi e = x" by (simp add: x_def p)
  have "(2::real) powi (k + 24) \<le> 2 powi 128"
    using k by (intro power_int_increasing) simp_all
  with xlt have "\<bar>x\<bar> < 2 powi 128" by linarith
  then have "round32 x = Some x"
    by (simp only: round32_def Let_def e_def [symmetric] r v if_True)
  then show ?thesis by (simp only: x_def)
qed

lemma speed_three_writes: "speed 6144 2000000 = Some (3 / 128)"
proof -
  have r: "round32 6144 = Some 6144" "round32 49152 = Some 49152"
    "round32 46875 = Some 46875" "round32 2000000 = Some 2000000"
    using round32_of_int [of 6144] round32_of_int [of 49152] round32_of_int [of 46875]
      round32_of_int [of 2000000] by simp_all
  have e: "round32 49152000 = Some 49152000" "round32 49152000000 = Some 49152000000"
    "round32 48000000 = Some 48000000" "round32 (3 / 128) = Some (3 / 128)"
    using round32_exact [of 375 17] round32_exact [of 46875 20] round32_exact [of 46875 10]
      round32_exact [of 3 "- 7"] by simp_all
  show ?thesis
    by (simp add: speed_def f_ops round32_consts r e)
qed

lemma speed_two_writes: "speed 4096 2000000 = Some (1 / 64)"
proof -
  have r: "round32 4096 = Some 4096" "round32 32768 = Some 32768"
    "round32 31250 = Some 31250" "round32 2000000 = Some 2000000"
    using round32_of_int [of 4096] round32_of_int [of 32768] round32_of_int [of 31250]
      round32_of_int [of 2000000] by simp_all
  have e: "round32 32768000 = Some 32768000" "round32 32768000000 = Some 32768000000"
    "round32 32000000 = Some 32000000" "round32 (1 / 64) = Some (1 / 64)"
    using round32_exact [of 125 18] round32_exact [of 15625 21] round32_exact [of 15625 11]
      round32_exact [of 1 "- 6"] by simp_all
  show ?thesis
    by (simp add: speed_def f_ops round32_consts r e)
qed

subsection \<open>A window of the stream loop\<close>

lemma stream_loop_append:
  "snd (stream_loop st xs) = None \<Longrightarrow>
     stream_loop st (xs @ ys) = stream_loop (fst (stream_loop st xs)) ys"
proof (induction xs arbitrary: st)
  case Nil
  show ?case by simp
next
  case (Cons x xs)
  obtain now w where x: "x = (now, w)" by (cases x)
  from Cons.prems have w: "\<not> w < 0"
    unfolding x stream_loop_Cons by (auto split: if_splits)
  with Cons.prems have "snd (stream_loop (fst (stream_write w (report_window now st))) xs) = None"
    unfolding x stream_loop_Cons by simp
  from Cons.IH [OF this] w show ?case
    unfolding x append_Cons stream_loop_Cons by simp
qed

lemma window_turns:
  "\<forall>(t, w)\<in>set turns. t - tick1 st < 2000 * 1000 \<and> 0 \<le> w \<Longrightarrow>
     sentlen (fst (stream_loop st turns)) = sentlen st + of_nat (buf_size * length turns)
     \<and> tick1 (fst (stream_loop st turns)) = tick1 st
     \<and> snd (stream_loop st turns) = None"
proof (induction turns arbitrary: st)
  case Nil
  show ?case by simp
next
  case (Cons x turns)
  obtain now w where x: "x = (now, w)" by (cases x)
  from Cons.prems have now: "\<not> 2000 * 1000 \<le> now - tick1 st" and w: "\<not> w < 0"
    by (simp_all add: x not_le)
  let ?st = "fst (stream_write w (report_window now st))"
  have 1: "tick1 ?st = tick1 st" "sentlen ?st = sentlen st + of_nat buf_size"
    using now w by (simp_all add: stream_write_tick1 stream_write_sentlen report_window_tick1
        report_window_sentlen)
  from Cons.prems have "\<forall>(t, w)\<in>set turns. t - tick1 ?st < 2000 * 1000 \<and> 0 \<le> w"
    by (simp add: 1)
  from Cons.IH [OF this] w show ?case
    unfolding x stream_loop_Cons by (simp add: 1 algebra_simps)
qed

lemma window_trace:
  "\<forall>(t, w)\<in>set turns. t - tick1 st < 2000 * 1000 \<and> 0 \<le> w \<Longrightarrow>
     trace (fst (stream_loop st turns)) =
       trace st @ concat (map (\<lambda>(t, w). [Xtimer_now_usec t, Sock_write Global_sock (buf st) w]) turns)"
proof (induction turns arbitrary: st)
  case Nil
  show ?case by simp
next
  case (Cons x turns)
  obtain now w where x: "x = (now, w)" by (cases x)
  from Cons.prems have now: "\<not> 2000 * 1000 \<le> now - tick1 st" and w: "\<not> w < 0"
    by (simp_all add: x not_le)
  let ?st = "fst (stream_write w (report_window now st))"
  have 1: "tick1 ?st = tick1 st" "buf ?st = buf st"
    "trace ?st = trace st @ [Xtimer_now_usec now, Sock_write Global_sock (buf st) w]"
    using now w by (simp_all add: stream_write_tick1 report_window_tick1 stream_write_buf
        report_window_buf turn_trace)
  from Cons.prems have "\<forall>(t, w)\<in>set turns. t - tick1 ?st < 2000 * 1000 \<and> 0 \<le> w"
    by (simp add: 1)
  from Cons.IH [OF this] w show ?case
    unfolding x stream_loop_Cons by (simp add: 1)
qed

lemma window_sizes:
  "\<forall>(t, w)\<in>set turns. t - k < d \<and> 0 \<le> w \<Longrightarrow>
     write_sizes (concat (map (\<lambda>(t, w). [Xtimer_now_usec t, Sock_write h b w]) turns))
       = replicate (length turns) (length b)"
  by (induction turns) auto

lemma window_report:
  assumes turns: "\<forall>(t, w)\<in>set turns. t - tick1 st < 2000 * 1000 \<and> 0 \<le> w"
    and rep: "2000 * 1000 \<le> t1 - tick1 st"
    and novf: "unat (sentlen st) + 2048 * length turns < 2 ^ 64"
  shows "\<exists>v. trace (fst (stream_loop st (turns @ [(t1, w1)]))) =
             trace st
               @ concat (map (\<lambda>(t, w). [Xtimer_now_usec t, Sock_write Global_sock (buf st) w]) turns)
               @ [Xtimer_now_usec t1, Printf_speed (Some v)]
               @ (if w1 < 0 then [Sock_write Global_sock (buf st) w1, Puts ''Errored on write'']
                  else [Sock_write Global_sock (buf st) w1])
           \<and> snd (stream_loop st (turns @ [(t1, w1)])) = (if w1 < 0 then Some w1 else None)
           \<and> \<bar>v - real (unat (sentlen st) + 2048 * length turns) * 8 * 1000 * 1000 / 1024 / 1024
                    / real (unat (t1 - tick1 st))\<bar>
               \<le> real (unat (sentlen st) + 2048 * length turns) * 8 * 1000 * 1000 / 1024 / 1024
                    / real (unat (t1 - tick1 st)) / 2 ^ 20"
proof -
  let ?st = "fst (stream_loop st turns)"
  note w = window_turns [OF turns]
  have "unat (sentlen st + of_nat (buf_size * length turns))
          = (unat (sentlen st) + buf_size * length turns) mod 2 ^ 64"
    by (simp add: unat_word_ariths unsigned_of_nat take_bit_eq_mod mod_simps)
  with novf have s: "unat (sentlen ?st) = unat (sentlen st) + 2048 * length turns"
    by (simp add: w buf_size_def)
  have "unat (2000 * 1000 :: u32) \<le> unat (t1 - tick1 st)"
    using rep by (simp only: word_le_nat_alt)
  then have d: "2000000 \<le> unat (t1 - tick1 st)" by simp
  from speed_error [OF d, of "sentlen ?st"] obtain v where v: "speed (sentlen ?st) (t1 - tick1 st) = Some v"
    and err: "\<bar>v - real (unat (sentlen ?st)) * 8 * 1000 * 1000 / 1024 / 1024
                    / real (unat (t1 - tick1 st))\<bar>
               \<le> real (unat (sentlen ?st)) * 8 * 1000 * 1000 / 1024 / 1024
                    / real (unat (t1 - tick1 st)) / 2 ^ 20"
    by blast
  have loop: "stream_loop st (turns @ [(t1, w1)]) = stream_loop ?st [(t1, w1)]"
    using w by (intro stream_loop_append) simp
  have "trace (fst (stream_loop st (turns @ [(t1, w1)]))) =
      trace ?st @ [Xtimer_now_usec t1, Printf_speed (Some v)]
        @ (if w1 < 0 then [Sock_write Global_sock (buf st) w1, Puts ''Errored on write'']
           else [Sock_write Global_sock (buf st) w1])"
    unfolding loop using rep v
    by (simp add: stream_loop_Cons stream_write_trace report_window_trace report_window_buf
        stream_loop_buf w del: stream_loop.simps(2))
  moreover have "snd (stream_loop st (turns @ [(t1, w1)])) = (if w1 < 0 then Some w1 else None)"
    unfolding loop by (simp add: stream_loop_Cons del: stream_loop.simps(2))
  ultimately show ?thesis
    using err unfolding s window_trace [OF turns] by auto
qed

lemma spec_rate_filler:
  "spec_rate (replicate n 2048) dt = real (2048 * n) * 8 * 1000 * 1000 / 1024 / 1024 / real dt"
  by (simp add: spec_rate_def sum_list_replicate)

lemma client_trace:
  assumes "0 \<le> c" and "0 \<le> hw"
  shows "trace (fst (test_tcp_client c hw start env)) =
     trace (fst (stream_loop ((client_connected c hw)\<lparr>tick1 := start,
                 trace := trace (client_connected c hw) @ [Xtimer_now_usec start]\<rparr>) env))
     @ (case snd (stream_loop ((client_connected c hw)\<lparr>tick1 := start,
                 trace := trace (client_connected c hw) @ [Xtimer_now_usec start]\<rparr>) env) of
          None \<Rightarrow> [] | Some r \<Rightarrow> [Sock_disconnect Global_sock])"
  by (simp add: client_streaming [OF assms] Let_def emit_simps split: option.splits)

subsection \<open>Windows in a trace\<close>

lemma first_report:
  assumes "length (buf st) = buf_size"
    and "trace (fst (stream_loop st env)) @ fin =
           trace st @ win @ Xtimer_now_usec t1 # Printf_speed y # post"
    and "\<not> list_ex is_report win" and "\<not> list_ex is_report fin"
  shows "y = speed (sentlen st + of_nat (sum_list (write_sizes win))) (t1 - tick1 st)
         \<and> 2000 * 1000 \<le> t1 - tick1 st"
  using assms
proof (induction env arbitrary: st win)
  case Nil
  then have "fin = win @ Xtimer_now_usec t1 # Printf_speed y # post" by simp
  with Nil.prems(4) show ?case by simp
next
  case (Cons e env)
  obtain t w where e: "e = (t, w)" by (cases e)
  let ?st = "fst (stream_write w (report_window t st))"
  obtain evs where evs: "trace (fst (stream_loop ?st env)) = trace ?st @ evs"
    using stream_loop_extends by blast
  show ?case
  proof (cases "w < 0")
    case True
    with Cons.prems(2) have eq: "Xtimer_now_usec t
       # (if 2000 * 1000 \<le> t - tick1 st then [Printf_speed (speed (sentlen st) (t - tick1 st))] else [])
       @ Sock_write Global_sock (buf st) w # Puts ''Errored on write'' # fin
       = win @ Xtimer_now_usec t1 # Printf_speed y # post"
      unfolding e stream_loop_Cons by (simp add: turn_trace)
    with Cons.prems(3,4) show ?thesis
      by (auto simp: Cons_eq_append_conv split: if_splits)
  next
    case False
    with Cons.prems(2) have eq: "Xtimer_now_usec t
       # (if 2000 * 1000 \<le> t - tick1 st then [Printf_speed (speed (sentlen st) (t - tick1 st))] else [])
       @ Sock_write Global_sock (buf st) w # evs @ fin
       = win @ Xtimer_now_usec t1 # Printf_speed y # post"
      unfolding e stream_loop_Cons by (simp add: evs turn_trace)
    show ?thesis
    proof (cases "2000 * 1000 \<le> t - tick1 st")
      case True
      with eq Cons.prems(3) show ?thesis
        by (auto simp: Cons_eq_append_conv)
    next
      case rep: False
      with eq Cons.prems(3) obtain win' where win: "win = Xtimer_now_usec t # Sock_write Global_sock (buf st) w # win'"
        and eq': "evs @ fin = win' @ Xtimer_now_usec t1 # Printf_speed y # post"
        by (auto simp: Cons_eq_append_conv)
      have 1: "length (buf ?st) = buf_size"
        using Cons.prems(1) by (simp add: stream_write_buf report_window_buf)
      have 2: "trace (fst (stream_loop ?st env)) @ fin =
           trace ?st @ win' @ Xtimer_now_usec t1 # Printf_speed y # post"
        using eq' by (simp add: evs)
      have 3: "\<not> list_ex is_report win'" using Cons.prems(3) by (simp add: win)
      have s: "sentlen ?st = sentlen st + of_nat buf_size" "tick1 ?st = tick1 st"
        using rep False by (simp_all add: stream_write_sentlen stream_write_tick1
            report_window_sentlen report_window_tick1)
      have "write_sizes win = buf_size # write_sizes win'"
        using False Cons.prems(1) by (simp add: win)
      then have "sentlen st + of_nat (sum_list (write_sizes win))
          = sentlen ?st + of_nat (sum_list (write_sizes win'))"
        by (simp add: s algebra_simps)
      with Cons.IH [OF 1 2 3 Cons.prems(4)] show ?thesis by (simp add: s add.assoc)
    qed
  qed
qed

lemma next_report:
  assumes "length (buf st) = buf_size"
    and "trace (fst (stream_loop st env)) @ fin =
           trace st @ pre @ Xtimer_now_usec t0 # Printf_speed x # win
             @ Xtimer_now_usec t1 # Printf_speed y # post"
    and "\<not> list_ex is_report win" and "\<not> list_ex is_report fin"
  shows "y = speed (of_nat (sum_list (write_sizes win))) (t1 - t0) \<and> 2000 * 1000 \<le> t1 - t0"
  using assms
proof (induction env arbitrary: st pre)
  case Nil
  then have "fin = pre @ Xtimer_now_usec t0 # Printf_speed x # win
             @ Xtimer_now_usec t1 # Printf_speed y # post" by simp
  with Nil.prems(4) show ?case by simp
next
  case (Cons e env)
  obtain t w where e: "e = (t, w)" by (cases e)
  let ?st = "fst (stream_write w (report_window t st))"
  let ?rhs = "Xtimer_now_usec t0 # Printf_speed x # win @ Xtimer_now_usec t1 # Printf_speed y # post"
  obtain evs where evs: "trace (fst (stream_loop ?st env)) = trace ?st @ evs"
    using stream_loop_extends by blast
  have 1: "length (buf ?st) = buf_size"
    using Cons.prems(1) by (simp add: stream_write_buf report_window_buf)
  show ?case
  proof (cases "w < 0")
    case True
    with Cons.prems(2) have eq: "Xtimer_now_usec t
       # (if 2000 * 1000 \<le> t - tick1 st then [Printf_speed (speed (sentlen st) (t - tick1 st))] else [])
       @ Sock_write Global_sock (buf st) w # Puts ''Errored on write'' # fin
       = pre @ ?rhs"
      unfolding e stream_loop_Cons by (simp add: turn_trace)
    with Cons.prems(3,4) show ?thesis
      by (auto simp: Cons_eq_append_conv split: if_splits)
  next
    case w: False
    with Cons.prems(2) have eq: "Xtimer_now_usec t
       # (if 2000 * 1000 \<le> t - tick1 st then [Printf_speed (speed (sentlen st) (t - tick1 st))] else [])
       @ Sock_write Global_sock (buf st) w # evs @ fin
       = pre @ ?rhs"
      unfolding e stream_loop_Cons by (simp add: evs turn_trace)
    show ?thesis
    proof (cases "2000 * 1000 \<le> t - tick1 st")
      case rep: True
      with eq consider
        (here) win' where "pre = []" "t0 = t" "win = Sock_write Global_sock (buf st) w # win'"
          "evs @ fin = win' @ Xtimer_now_usec t1 # Printf_speed y # post"
        | (later) pre' where "evs @ fin = pre' @ ?rhs"
        by (auto simp: Cons_eq_append_conv)
      then show ?thesis
      proof cases
        case here
        have 2: "trace (fst (stream_loop ?st env)) @ fin =
           trace ?st @ win' @ Xtimer_now_usec t1 # Printf_speed y # post"
          using here(4) by (simp add: evs)
        have 3: "\<not> list_ex is_report win'" using Cons.prems(3) by (simp add: here(3))
        have s: "sentlen ?st = of_nat buf_size" "tick1 ?st = t"
          using rep w by (simp_all add: stream_write_sentlen stream_write_tick1
              report_window_sentlen report_window_tick1)
        have "write_sizes win = buf_size # write_sizes win'"
          using w Cons.prems(1) by (simp add: here(3))
        then have "of_nat (sum_list (write_sizes win))
            = sentlen ?st + of_nat (sum_list (write_sizes win'))"
          by (simp add: s algebra_simps)
        with first_report [OF 1 2 3 Cons.prems(4)] show ?thesis by (simp add: s here(2))
      next
        case later
        then have "trace (fst (stream_loop ?st env)) @ fin = trace ?st @ pre' @ ?rhs"
          by (simp add: evs)
        from Cons.IH [OF 1 this Cons.prems(3,4)] show ?thesis .
      qed
    next
      case False
      with eq obtain pre' where "evs @ fin = pre' @ ?rhs"
        by (auto simp: Cons_eq_append_conv)
      then have "trace (fst (stream_loop ?st env)) @ fin = trace ?st @ pre' @ ?rhs"
        by (simp add: evs)
      from Cons.IH [OF 1 this Cons.prems(3,4)] show ?thesis .
    qed
  qed
qed

lemma stream_loop_head:
  assumes "trace (fst (stream_loop st env)) = trace st @ evs" and "\<not> list_ex is_report fin"
  shows "evs @ fin \<noteq> Printf_speed x # rest"
proof (cases env)
  case Nil
  with assms show ?thesis by auto
next
  case (Cons e env')
  obtain t w where e: "e = (t, w)" by (cases e)
  obtain evs' where "trace (fst (stream_loop (fst (stream_write w (report_window t st))) env'))
      = trace (fst (stream_write w (report_window t st))) @ evs'"
    using stream_loop_extends by blast
  with assms(1) show ?thesis
    unfolding Cons e stream_loop_Cons by (auto simp: turn_trace split: if_splits)
qed

lemma rate_within_tolerance:
  assumes y: "y = speed (of_nat (sum_list sizes)) d" and d: "2000 * 1000 \<le> d"
    and n: "sum_list sizes < 2 ^ 64"
  shows "2000000 \<le> unat d
         \<and> (\<exists>v. y = Some v
              \<and> \<bar>v - spec_rate sizes (unat d)\<bar> \<le> spec_rate sizes (unat d) / 2 ^ 20)"
proof -
  have "unat (2000 * 1000 :: u32) \<le> unat d"
    using d by (simp only: word_le_nat_alt)
  then have D: "2000000 \<le> unat d" by simp
  have s: "unat (of_nat (sum_list sizes) :: u64) = sum_list sizes"
    using n by (simp add: unat_of_nat)
  have r: "spec_rate sizes (unat d)
      = real (sum_list sizes) * 8 * 1000 * 1000 / 1024 / 1024 / real (unat d)"
    by (simp add: spec_rate_def del: of_nat_unat)
  from speed_error [OF D, of "of_nat (sum_list sizes)"] D show ?thesis
    unfolding y s r by blast
qed

lemma client_first_window:
  assumes tr: \<open>trace (fst (test_tcp_client c hw start env)) =
      [Sock_connect Global_sock ''192.168.1.102'' 12344 c, Puts ''Sending "Hello!"'',
       Sock_write Global_sock hello hw, Xtimer_now_usec start]
      @ win @ [Xtimer_now_usec t1, Printf_speed y] @ post\<close>
    and win: "\<not> list_ex is_report win"
  shows "y = speed (of_nat (sum_list (write_sizes win))) (t1 - start) \<and> 2000 * 1000 \<le> t1 - start"
proof -
  consider "c < 0" | "0 \<le> c" "hw < 0" | "0 \<le> c" "0 \<le> hw" by linarith
  then show ?thesis
  proof cases
    case 1
    with tr show ?thesis by (simp add: client_connect_failed)
  next
    case 2
    with tr show ?thesis by (simp add: client_hello_failed client_connected_def)
  next
    case 3
    let ?st = "(client_connected c hw)\<lparr>tick1 := start,
                 trace := trace (client_connected c hw) @ [Xtimer_now_usec start]\<rparr>"
    let ?fin = "case snd (stream_loop ?st env) of None \<Rightarrow> [] | Some r \<Rightarrow> [Sock_disconnect Global_sock]"
    have 1: "length (buf ?st) = buf_size"
      by (simp add: client_connected_def client_init_def)
    have 2: "trace (fst (stream_loop ?st env)) @ ?fin
        = trace ?st @ win @ Xtimer_now_usec t1 # Printf_speed y # post"
      using tr unfolding client_trace [OF 3] by (simp add: client_connected_def)
    have 4: "\<not> list_ex is_report ?fin" by (simp split: option.splits)
    from first_report [OF 1 2 win 4] show ?thesis
      by (simp add: client_connected_def client_init_def)
  qed
qed

lemma client_next_window:
  assumes tr: "trace (fst (test_tcp_client c hw start env)) =
      pre @ [Xtimer_now_usec t0, Printf_speed x] @ win @ [Xtimer_now_usec t1, Printf_speed y] @ post"
    and win: "\<not> list_ex is_report win"
  shows "y = speed (of_nat (sum_list (write_sizes win))) (t1 - t0) \<and> 2000 * 1000 \<le> t1 - t0"
proof -
  consider "c < 0" | "0 \<le> c" "hw < 0" | "0 \<le> c" "0 \<le> hw" by linarith
  then show ?thesis
  proof cases
    case 1
    with tr show ?thesis by (simp add: client_connect_failed Cons_eq_append_conv)
  next
    case 2
    with tr show ?thesis
      by (auto simp: client_hello_failed client_connected_def Cons_eq_append_conv)
  next
    case 3
    let ?st = "(client_connected c hw)\<lparr>tick1 := start,
                 trace := trace (client_connected c hw) @ [Xtimer_now_usec start]\<rparr>"
    let ?fin = "case snd (stream_loop ?st env) of None \<Rightarrow> [] | Some r \<Rightarrow> [Sock_disconnect Global_sock]"
    let ?rhs = "Xtimer_now_usec t0 # Printf_speed x # win @ Xtimer_now_usec t1 # Printf_speed y # post"
    obtain evs where evs: "trace (fst (stream_loop ?st env)) = trace ?st @ evs"
      using stream_loop_extends by blast
    have 1: "length (buf ?st) = buf_size"
      by (simp add: client_connected_def client_init_def)
    have 4: "\<not> list_ex is_report ?fin" by (simp split: option.splits)
    have "trace ?st @ evs @ ?fin = pre @ ?rhs"
      using tr unfolding client_trace [OF 3] evs by simp
    then obtain pre' where "evs @ ?fin = pre' @ ?rhs"
      using stream_loop_head [OF evs 4]
      by (auto simp: client_connected_def Cons_eq_append_conv)
    then have 2: "trace (fst (stream_loop ?st env)) @ ?fin = trace ?st @ pre' @ ?rhs"
      by (simp add: evs)
    from next_report [OF 1 2 win 4] show ?thesis .
  qed
qed

lemma window_after_report:
  assumes b: "length (buf st) = 2048" and rep: "2000 * 1000 \<le> prev - tick1 st" and w: "0 \<le> w"
    and turns: "\<forall>(t, w)\<in>set turns. t - prev < 2000 * 1000 \<and> 0 \<le> w"
    and now: "2000 * 1000 \<le> now - prev" and novf: "2048 * (1 + length turns) < 2 ^ 64"
  shows "\<exists>x v evs.
         evs = Sock_write Global_sock (buf st) w
                 # concat (map (\<lambda>(t, w). [Xtimer_now_usec t, Sock_write Global_sock (buf st) w]) turns)
         \<and> trace (fst (stream_loop st ((prev, w) # turns @ [(now, wl)]))) =
             trace st @ [Xtimer_now_usec prev, Printf_speed x] @ evs
               @ [Xtimer_now_usec now, Printf_speed (Some v)]
               @ (if wl < 0 then [Sock_write Global_sock (buf st) wl, Puts ''Errored on write'']
                  else [Sock_write Global_sock (buf st) wl])
         \<and> write_sizes evs = replicate (1 + length turns) 2048
         \<and> \<bar>v - spec_rate (write_sizes evs) (unat (now - prev))\<bar>
             \<le> spec_rate (write_sizes evs) (unat (now - prev)) / 2 ^ 20"
proof -
  let ?st = "fst (stream_write w (report_window prev st))"
  let ?evs = "Sock_write Global_sock (buf st) w
                 # concat (map (\<lambda>(t, w). [Xtimer_now_usec t, Sock_write Global_sock (buf st) w]) turns)"
  have st: "tick1 ?st = prev" "sentlen ?st = 2048" "buf ?st = buf st"
    "trace ?st = trace st @ [Xtimer_now_usec prev, Printf_speed (speed (sentlen st) (prev - tick1 st)),
        Sock_write Global_sock (buf st) w]"
    using rep w by (simp_all add: stream_write_tick1 stream_write_sentlen report_window_tick1
        report_window_sentlen buf_size_def stream_write_buf report_window_buf turn_trace)
  have loop: "stream_loop st ((prev, w) # xs) = stream_loop ?st xs" for xs
    using w by (simp add: stream_loop_Cons del: stream_loop.simps)
  have 1: "\<forall>(t, w)\<in>set turns. t - tick1 ?st < 2000 * 1000 \<and> 0 \<le> w"
    and 2: "2000 * 1000 \<le> now - tick1 ?st"
    and 3: "unat (sentlen ?st) + 2048 * length turns < 2 ^ 64"
    using turns now novf by (simp_all add: st)
  from window_report [OF 1 2 3, of wl] obtain v where
    tr: "trace (fst (stream_loop ?st (turns @ [(now, wl)]))) =
             trace ?st
               @ concat (map (\<lambda>(t, w). [Xtimer_now_usec t, Sock_write Global_sock (buf ?st) w]) turns)
               @ [Xtimer_now_usec now, Printf_speed (Some v)]
               @ (if wl < 0 then [Sock_write Global_sock (buf ?st) wl, Puts ''Errored on write'']
                  else [Sock_write Global_sock (buf ?st) wl])"
    and err: "\<bar>v - real (unat (sentlen ?st) + 2048 * length turns) * 8 * 1000 * 1000 / 1024 / 1024
                    / real (unat (now - tick1 ?st))\<bar>
               \<le> real (unat (sentlen ?st) + 2048 * length turns) * 8 * 1000 * 1000 / 1024 / 1024
                    / real (unat (now - tick1 ?st)) / 2 ^ 20"
    by blast
  have sizes: "write_sizes ?evs = replicate (1 + length turns) 2048"
    using w b window_sizes [OF turns, of Global_sock "buf st"] by simp
  have "trace (fst (stream_loop st ((prev, w) # turns @ [(now, wl)]))) =
             trace st @ [Xtimer_now_usec prev, Printf_speed (speed (sentlen st) (prev - tick1 st))] @ ?evs
               @ [Xtimer_now_usec now, Printf_speed (Some v)]
               @ (if wl < 0 then [Sock_write Global_sock (buf st) wl, Puts ''Errored on write'']
                  else [Sock_write Global_sock (buf st) wl])"
    unfolding loop tr by (simp add: st)
  moreover have "\<bar>v - spec_rate (write_sizes ?evs) (unat (now - prev))\<bar>
             \<le> spec_rate (write_sizes ?evs) (unat (now - prev)) / 2 ^ 20"
    using err unfolding sizes spec_rate_filler st by (simp del: of_nat_unat)
  ultimately show ?thesis using sizes by blast
qed

lemma first_window:
  assumes c: "0 \<le> c" and hw: "0 \<le> hw"
    and turns: "\<forall>(t, w)\<in>set turns. t - start < 2000 * 1000 \<and> 0 \<le> w"
    and now: "2000 * 1000 \<le> now - start" and novf: "2048 * length turns < 2 ^ 64"
  shows \<open>\<exists>v evs.
         evs = concat (map (\<lambda>(t, w). [Xtimer_now_usec t,
                                     Sock_write Global_sock (replicate 2048 97) w]) turns)
         \<and> trace (fst (test_tcp_client c hw start (turns @ [(now, wl)]))) =
             [Sock_connect Global_sock ''192.168.1.102'' 12344 c, Puts ''Sending "Hello!"'',
              Sock_write Global_sock hello hw, Xtimer_now_usec start] @ evs
               @ [Xtimer_now_usec now, Printf_speed (Some v)]
               @ (if wl < 0 then [Sock_write Global_sock (replicate 2048 97) wl,
                                  Puts ''Errored on write'', Sock_disconnect Global_sock]
                  else [Sock_write Global_sock (replicate 2048 97) wl])
         \<and> write_sizes evs = replicate (length turns) 2048
         \<and> \<bar>v - spec_rate (write_sizes evs) (unat (now - start))\<bar>
             \<le> spec_rate (write_sizes evs) (unat (now - start)) / 2 ^ 20\<close>
proof -
  let ?st = "(client_connected c hw)\<lparr>tick1 := start,
                 trace := trace (client_connected c hw) @ [Xtimer_now_usec start]\<rparr>"
  let ?evs = "concat (map (\<lambda>(t, w). [Xtimer_now_usec t,
                                     Sock_write Global_sock (replicate 2048 97) w]) turns)"
  have st: "tick1 ?st = start" "sentlen ?st = 0" "buf ?st = replicate 2048 97"
    by (simp_all add: client_connected_def client_init_def buf_size_def)
  have 1: "\<forall>(t, w)\<in>set turns. t - tick1 ?st < 2000 * 1000 \<and> 0 \<le> w"
    and 2: "2000 * 1000 \<le> now - tick1 ?st"
    and 3: "unat (sentlen ?st) + 2048 * length turns < 2 ^ 64"
    using turns now novf by (simp_all add: st)
  from window_report [OF 1 2 3, of wl] obtain v where
    tr: "trace (fst (stream_loop ?st (turns @ [(now, wl)]))) =
             trace ?st
               @ concat (map (\<lambda>(t, w). [Xtimer_now_usec t, Sock_write Global_sock (buf ?st) w]) turns)
               @ [Xtimer_now_usec now, Printf_speed (Some v)]
               @ (if wl < 0 then [Sock_write Global_sock (buf ?st) wl, Puts ''Errored on write'']
                  else [Sock_write Global_sock (buf ?st) wl])"
    and out: "snd (stream_loop ?st (turns @ [(now, wl)])) = (if wl < 0 then Some wl else None)"
    and err: "\<bar>v - real (unat (sentlen ?st) + 2048 * length turns) * 8 * 1000 * 1000 / 1024 / 1024
                    / real (unat (now - tick1 ?st))\<bar>
               \<le> real (unat (sentlen ?st) + 2048 * length turns) * 8 * 1000 * 1000 / 1024 / 1024
                    / real (unat (now - tick1 ?st)) / 2 ^ 20"
    by blast
  have sizes: "write_sizes ?evs = replicate (length turns) 2048"
    using window_sizes [OF turns, of Global_sock "replicate 2048 97"] by simp
  have \<open>trace (fst (test_tcp_client c hw start (turns @ [(now, wl)]))) =
             [Sock_connect Global_sock ''192.168.1.102'' 12344 c, Puts ''Sending "Hello!"'',
              Sock_write Global_sock hello hw, Xtimer_now_usec start] @ ?evs
               @ [Xtimer_now_usec now, Printf_speed (Some v)]
               @ (if wl < 0 then [Sock_write Global_sock (replicate 2048 97) wl,
                                  Puts ''Errored on write'', Sock_disconnect Global_sock]
                  else [Sock_write Global_sock (replicate 2048 97) wl])\<close>
    unfolding client_trace [OF c hw] tr out st by (simp add: client_connected_def)
  moreover have "\<bar>v - spec_rate (write_sizes ?evs) (unat (now - start))\<bar>
             \<le> spec_rate (write_sizes ?evs) (unat (now - start)) / 2 ^ 20"
    using err unfolding sizes spec_rate_filler st by (simp del: of_nat_unat)
  ultimately show ?thesis using sizes by blast
qed

lemma example_first_window:
  \<open>test_tcp_client 0 7 0 [(10, 100), (20, 100), (30, 100), (2000000, 100)] =
     (\<lparr>sentlen = 2048, tick1 = 2000000, tick2 = 2000000, buf = replicate 2048 97, trace =
       [Sock_connect Global_sock ''192.168.1.102'' 12344 0, Puts ''Sending "Hello!"'',
        Sock_write Global_sock hello 7, Xtimer_now_usec 0,
        Xtimer_now_usec 10, Sock_write Global_sock (replicate 2048 97) 100,
        Xtimer_now_usec 20, Sock_write Global_sock (replicate 2048 97) 100,
        Xtimer_now_usec 30, Sock_write Global_sock (replicate 2048 97) 100,
        Xtimer_now_usec 2000000, Printf_speed (Some (3 / 128)),
        Sock_write Global_sock (replicate 2048 97) 100]\<rparr>, In_stream)\<close>
  by (simp add: test_tcp_client_def emit_def client_init_def stream_loop_step buf_size_def
      speed_three_writes del: stream_loop.simps(2))

lemma example_two_windows:
  \<open>test_tcp_client 0 7 0
       [(10, 100), (20, 100), (30, 100), (2000000, 100), (2000010, 100), (4000000, - 1)] =
     (\<lparr>sentlen = 0, tick1 = 4000000, tick2 = 4000000, buf = replicate 2048 97, trace =
       [Sock_connect Global_sock ''192.168.1.102'' 12344 0, Puts ''Sending "Hello!"'',
        Sock_write Global_sock hello 7, Xtimer_now_usec 0,
        Xtimer_now_usec 10, Sock_write Global_sock (replicate 2048 97) 100,
        Xtimer_now_usec 20, Sock_write Global_sock (replicate 2048 97) 100,
        Xtimer_now_usec 30, Sock_write Global_sock (replicate 2048 97) 100,
        Xtimer_now_usec 2000000, Printf_speed (Some (3 / 128)),
        Sock_write Global_sock (replicate 2048 97) 100,
        Xtimer_now_usec 2000010, Sock_write Global_sock (replicate 2048 97) 100,
        Xtimer_now_usec 4000000, Printf_speed (Some (1 / 64)),
        Sock_write Global_sock (replicate 2048 97) (- 1), Puts ''Errored on write'',
        Sock_disconnect Global_sock]\<rparr>, Returned (- 1))\<close>
  by (simp add: test_tcp_client_def emit_def client_init_def stream_loop_step buf_size_def
      speed_three_writes speed_two_writes del: stream_loop.simps(2))

section \<open>Properties\<close>

subsection \<open>Failure to listen\<close>

text \<open>
  Claim C10. When \<^verbatim>\<open>sock_tcp_listen\<close> returns an error (a negative value), the server
  prints its message and returns 1 at once: the trace holds the listen call and the
  message and nothing else, so no accept, no read and no disconnect is made, whatever
  the transport would have answered.
\<close>

theorem listen_failure_is_fatal:
  "l < 0 \<Longrightarrow>
     test_tcp_server l accs rs =
       ([Sock_listen 12345 SOCK_QUEUE_LEN l, Puts ''Error creating listening queue''], Returned 1)
     \<and> filter is_accept (fst (test_tcp_server l accs rs)) = []
     \<and> filter is_read (fst (test_tcp_server l accs rs)) = []
     \<and> filter is_disconnect (fst (test_tcp_server l accs rs)) = []"
  by (simp add: test_tcp_server_def)

text \<open>Witness for C10: listen returns \<open>-1\<close>.\<close>

theorem listen_failure_is_fatal_witness:
  "(-1 :: int) < 0
   \<and> test_tcp_server (-1) [(0, Queued 0)] [5, -1] =
       ([Sock_listen 12345 SOCK_QUEUE_LEN (-1), Puts ''Error creating listening queue''], Returned 1)
   \<and> filter is_accept (fst (test_tcp_server (-1) [(0, Queued 0)] [5, -1])) = []
   \<and> filter is_read (fst (test_tcp_server (-1) [(0, Queued 0)] [5, -1])) = []
   \<and> filter is_disconnect (fst (test_tcp_server (-1) [(0, Queued 0)] [5, -1])) = []"
  using listen_failure_is_fatal [of "-1" "[(0, Queued 0)]" "[5, -1]"] by simp

subsection \<open>Failure to accept\<close>

text \<open>
  Claim C5. After a successful listen the server never returns, whatever the accepts and
  reads answer: its outcome is never \<open>Returned\<close>. Whenever an accept in its trace has
  returned an error, the next event is the message \<^verbatim>\<open>Error accepting new sock\<close> and
  after it the server is in accept again: either the trace goes on with the next accept
  call, or the trace ends there and the server waits in accept. When every accept of the
  script fails, the trace is the listen call, its message, and one accept and one message
  for each failure, and the server waits in the next accept.
\<close>

theorem accept_failure_is_retried:
  "0 \<le> l \<Longrightarrow>
     snd (test_tcp_server l accs rs) \<noteq> Returned v
     \<and> (fst (test_tcp_server l accs rs) = p @ Sock_accept a h # q \<and> a < 0 \<longrightarrow>
          (\<exists>q'. q = Puts ''Error accepting new sock'' # q' \<and>
             (q' = [] \<and> snd (test_tcp_server l accs rs) = In_accept
              \<or> (\<exists>a' h' q''. q' = Sock_accept a' h' # q''))))
     \<and> ((\<forall>(a, h)\<in>set accs. a < 0) \<longrightarrow>
          test_tcp_server l accs rs =
            ([Sock_listen 12345 SOCK_QUEUE_LEN l, Puts ''Listening on port 12345'']
               @ concat (map (\<lambda>(a, h). [Sock_accept a h, Puts ''Error accepting new sock'']) accs),
             In_accept))"
proof (intro conjI impI)
  assume l: "0 \<le> l"
  let ?hd = "[Sock_listen 12345 SOCK_QUEUE_LEN l, Puts ''Listening on port 12345'']"
  have srv: "test_tcp_server l accs rs =
      (?hd @ fst (accept_loop [] accs rs), snd (accept_loop [] accs rs))"
    using l accept_loop_from_empty [of ?hd accs rs] by (simp add: test_tcp_server_def)
  show "snd (test_tcp_server l accs rs) \<noteq> Returned v"
    by (simp add: srv accept_loop_never_returns)
  {
    assume "fst (test_tcp_server l accs rs) = p @ Sock_accept a h # q \<and> a < 0"
    then have dec: "?hd @ fst (accept_loop [] accs rs) = p @ Sock_accept a h # q"
      and a: "a < 0" by (simp_all add: srv)
    have "Sock_accept a h \<notin> set ?hd" by simp
    from split_after [OF dec this]
    obtain p' where "fst (accept_loop [] accs rs) = p' @ Sock_accept a h # q"
      by auto
    from retry_after_failure [OF this a]
    show "\<exists>q'. q = Puts ''Error accepting new sock'' # q' \<and>
             (q' = [] \<and> snd (test_tcp_server l accs rs) = In_accept
              \<or> (\<exists>a' h' q''. q' = Sock_accept a' h' # q''))"
      by (simp add: srv)
  }
  {
    assume "\<forall>(a, h)\<in>set accs. a < 0"
    then show "test_tcp_server l accs rs =
            (?hd @ concat (map (\<lambda>(a, h). [Sock_accept a h, Puts ''Error accepting new sock'']) accs),
             In_accept)"
      using l by (simp add: test_tcp_server_def accept_loop_all_fail)
  }
qed

text \<open>
  Witness for C5: three failed accepts and then a successful one; the second failure is
  followed by the message and the third accept. Two failures only: the closed form.
\<close>

theorem accept_failure_is_retried_witness:
  "(0 :: int) \<le> 0
   \<and> fst (test_tcp_server 0 [(-1, Queued 0), (-1, Queued 0), (-1, Queued 0), (0, Queued 1)] [])
       = [Sock_listen 12345 SOCK_QUEUE_LEN 0, Puts ''Listening on port 12345'',
          Sock_accept (-1) (Queued 0), Puts ''Error accepting new sock'']
         @ Sock_accept (-1) (Queued 0)
         # [Puts ''Error accepting new sock'', Sock_accept (-1) (Queued 0),
            Puts ''Error accepting new sock'', Sock_accept 0 (Queued 1), Puts ''Reading data'']
   \<and> (-1 :: int) < 0
   \<and> snd (test_tcp_server 0 [(-1, Queued 0), (-1, Queued 0), (-1, Queued 0), (0, Queued 1)] [])
       \<noteq> Returned 0
   \<and> list_all (\<lambda>(a, h). a < 0) [(-1 :: int, Queued 0), (-2, Queued 0)]
   \<and> test_tcp_server 0 [(-1, Queued 0), (-2, Queued 0)] [] =
       ([Sock_listen 12345 SOCK_QUEUE_LEN 0, Puts ''Listening on port 12345'',
         Sock_accept (-1) (Queued 0), Puts ''Error accepting new sock'',
         Sock_accept (-2) (Queued 0), Puts ''Error accepting new sock''], In_accept)"
  using accept_failure_is_retried [of 0 "[(-1, Queued 0), (-1, Queued 0), (-1, Queued 0), (0, Queued 1)]" "[]" 0
      "[Sock_listen 12345 SOCK_QUEUE_LEN 0, Puts ''Listening on port 12345'',
          Sock_accept (-1) (Queued 0), Puts ''Error accepting new sock'']" "-1" "Queued 0"
      "[Puts ''Error accepting new sock'', Sock_accept (-1) (Queued 0),
            Puts ''Error accepting new sock'', Sock_accept 0 (Queued 1), Puts ''Reading data'']"]
    accept_failure_is_retried [of 0 "[(-1, Queued 0), (-2, Queued 0)]" "[]"]
  by (simp add: test_tcp_server_def)

subsection \<open>One connection at a time\<close>

text \<open>
  Claim C6. At every point of every run of the server (every prefix \<open>p\<close> of its trace)
  at most one accepted handle is not yet disconnected, and at every call of accept (every
  prefix that an accept event extends) none is: the disconnect of an accepted connection
  comes before the next accept.
\<close>

theorem server_single_connection:
  "(prefix p (fst (test_tcp_server l accs rs)) \<longrightarrow> length (active p) \<le> 1)
   \<and> (prefix (p' @ [Sock_accept a h]) (fst (test_tcp_server l accs rs)) \<longrightarrow> active p' = [])"
proof -
  let ?e1 = "Sock_listen 12345 SOCK_QUEUE_LEN l"
  have 1: "single_connection [?e1] \<and> active [?e1] = []"
    using quiet_event [of "[]" ?e1] by (simp add: single_connection_Nil active_def)
  have 2: "single_connection [?e1, Puts m] \<and> active [?e1, Puts m] = []" for m
    using quiet_event [of "[?e1]" "Puts m"] 1 by simp
  have "single_connection (fst (test_tcp_server l accs rs))"
    using 2 accept_loop_single by (simp add: test_tcp_server_def)
  then show ?thesis
    unfolding single_connection_def by blast
qed

text \<open>
  Witness for C6: two connections; one handle is open during the first drain, none when
  the second accept is called.
\<close>

theorem server_single_connection_witness:
  "prefix [Sock_listen 12345 SOCK_QUEUE_LEN 0, Puts ''Listening on port 12345'',
           Sock_accept 0 (Queued 3), Puts ''Reading data'', Sock_read (Queued 3) buf_size 10]
     (fst (test_tcp_server 0 [(0, Queued 3), (0, Queued 4)] [10, -1]))
   \<and> length (active [Sock_listen 12345 SOCK_QUEUE_LEN 0, Puts ''Listening on port 12345'',
           Sock_accept 0 (Queued 3), Puts ''Reading data'', Sock_read (Queued 3) buf_size 10]) \<le> 1
   \<and> prefix ([Sock_listen 12345 SOCK_QUEUE_LEN 0, Puts ''Listening on port 12345'',
           Sock_accept 0 (Queued 3), Puts ''Reading data'', Sock_read (Queued 3) buf_size 10,
           Sock_read (Queued 3) buf_size (-1), Puts ''Disconnected'', Sock_disconnect (Queued 3)]
           @ [Sock_accept 0 (Queued 4)])
     (fst (test_tcp_server 0 [(0, Queued 3), (0, Queued 4)] [10, -1]))
   \<and> active [Sock_listen 12345 SOCK_QUEUE_LEN 0, Puts ''Listening on port 12345'',
           Sock_accept 0 (Queued 3), Puts ''Reading data'', Sock_read (Queued 3) buf_size 10,
           Sock_read (Queued 3) buf_size (-1), Puts ''Disconnected'', Sock_disconnect (Queued 3)] = []"
  using server_single_connection [of
      "[Sock_listen 12345 SOCK_QUEUE_LEN 0, Puts ''Listening on port 12345'',
           Sock_accept 0 (Queued 3), Puts ''Reading data'', Sock_read (Queued 3) buf_size 10]"
      0 "[(0, Queued 3), (0, Queued 4)]" "[10, -1]"
      "[Sock_listen 12345 SOCK_QUEUE_LEN 0, Puts ''Listening on port 12345'',
           Sock_accept 0 (Queued 3), Puts ''Reading data'', Sock_read (Queued 3) buf_size 10,
           Sock_read (Queued 3) buf_size (-1), Puts ''Disconnected'', Sock_disconnect (Queued 3)]"
      0 "Queued 4"]
  by (simp add: test_tcp_server_def)

subsection \<open>Failure to connect\<close>

text \<open>
  Claim C4. When \<^verbatim>\<open>sock_tcp_connect\<close> returns an error, the client returns 1 (a
  failure status); its trace is the connect call and the message, so it has made no write
  and no disconnect.
\<close>

theorem connect_failure_returns_at_once:
  "c < 0 \<Longrightarrow>
     snd (test_tcp_client c hw start env) = Returned 1
     \<and> trace (fst (test_tcp_client c hw start env)) =
         [Sock_connect Global_sock ''192.168.1.102'' 12344 c, Puts ''Error connecting sock'']
     \<and> filter is_write (trace (fst (test_tcp_client c hw start env))) = []
     \<and> filter is_disconnect (trace (fst (test_tcp_client c hw start env))) = []"
  by (simp add: client_connect_failed)

text \<open>Witness for C4: connect returns \<open>-1\<close>.\<close>

theorem connect_failure_returns_at_once_witness:
  "(-1 :: int) < 0
   \<and> snd (test_tcp_client (-1) 7 0 [(5, 2048)]) = Returned 1
   \<and> trace (fst (test_tcp_client (-1) 7 0 [(5, 2048)])) =
         [Sock_connect Global_sock ''192.168.1.102'' 12344 (-1), Puts ''Error connecting sock'']
   \<and> filter is_write (trace (fst (test_tcp_client (-1) 7 0 [(5, 2048)]))) = []
   \<and> filter is_disconnect (trace (fst (test_tcp_client (-1) 7 0 [(5, 2048)]))) = []"
  using connect_failure_returns_at_once [of "-1" 7 0 "[(5, 2048)]"] by simp

subsection \<open>The greeting and the stream loop\<close>

text \<open>
  Claim C7 says that the client enters the stream loop and writes the buffer at least once
  whatever the write of the greeting returned. The loop is the \<^verbatim>\<open>else\<close> branch of
  the test of that result (lines 97 to 134): with a greeting write that returns \<open>-1\<close>
  and a script that would let a stream write succeed, the client returns \<open>-1\<close> and the
  greeting is the only write it has made.
\<close>

theorem handshake_failure_enters_stream_counterexample:
  "snd (test_tcp_client 0 (-1) 0 [(5, 2048)]) = Returned (-1)
   \<and> filter is_write (trace (fst (test_tcp_client 0 (-1) 0 [(5, 2048)]))) =
       [Sock_write Global_sock hello (-1)]"
  by (simp add: test_tcp_client_def emit_def client_init_def)

text \<open>
  Claim C7, amended. After a successful connect, the client enters the stream loop exactly
  when the write of the greeting returned a non-negative result.
  \<^item> When it returned a negative result \<open>hw\<close>, the client logs the failure
    (\<^verbatim>\<open>Errored on write\<close>), disconnects and returns \<open>hw\<close>: its trace is the
    connect, the announcement, the write of the greeting, the message and the disconnect,
    and the greeting is its only write.
  \<^item> Otherwise the trace goes on after the greeting with the clock reading of line 103
    and the events \<open>evs\<close> of the loop. The writes among them are the stream writes
    \<open>ws\<close>, one write of the 2048 bytes of \<^verbatim>\<open>buf\<close> for every turn that the
    script lets run. There is at least one stream write as soon as the script has a turn
    for the loop, and in particular whenever the client has returned; and a client that
    returns \<open>r\<close> does so after a stream write that returned the negative result
    \<open>r\<close>, the message and the disconnect.
\<close>

theorem stream_entered_after_good_handshake:
  \<open>0 \<le> c \<Longrightarrow>
     (hw < 0 \<longrightarrow>
        snd (test_tcp_client c hw start env) = Returned hw
        \<and> trace (fst (test_tcp_client c hw start env)) =
            [Sock_connect Global_sock ''192.168.1.102'' 12344 c, Puts ''Sending "Hello!"'',
             Sock_write Global_sock hello hw, Puts ''Errored on write'',
             Sock_disconnect Global_sock]
        \<and> filter is_write (trace (fst (test_tcp_client c hw start env))) =
            [Sock_write Global_sock hello hw])
     \<and> (0 \<le> hw \<longrightarrow>
        (\<exists>evs ws.
            trace (fst (test_tcp_client c hw start env)) =
              [Sock_connect Global_sock ''192.168.1.102'' 12344 c, Puts ''Sending "Hello!"'',
               Sock_write Global_sock hello hw, Xtimer_now_usec start] @ evs
            \<and> ws = map (\<lambda>(t, w). Sock_write Global_sock (replicate 2048 97) w) (executed env)
            \<and> filter is_write evs = ws
            \<and> filter is_write (trace (fst (test_tcp_client c hw start env))) =
                Sock_write Global_sock hello hw # ws
            \<and> ((env \<noteq> [] \<or> (\<exists>r. snd (test_tcp_client c hw start env) = Returned r)) \<longrightarrow> ws \<noteq> [])
            \<and> (\<forall>r. snd (test_tcp_client c hw start env) = Returned r \<longrightarrow>
                 r < 0 \<and> (\<exists>evs'. evs = evs' @ [Sock_write Global_sock (replicate 2048 97) r,
                                                 Puts ''Errored on write'',
                                                 Sock_disconnect Global_sock]))))\<close>
proof (intro conjI impI)
  assume c: "0 \<le> c"
  {
    assume "hw < 0"
    with c show "snd (test_tcp_client c hw start env) = Returned hw"
      and \<open>trace (fst (test_tcp_client c hw start env)) =
            [Sock_connect Global_sock ''192.168.1.102'' 12344 c, Puts ''Sending "Hello!"'',
             Sock_write Global_sock hello hw, Puts ''Errored on write'',
             Sock_disconnect Global_sock]\<close>
      and "filter is_write (trace (fst (test_tcp_client c hw start env))) =
            [Sock_write Global_sock hello hw]"
      by (simp_all add: client_hello_failed client_connected_def client_init_def)
  }
  {
    assume hw: "0 \<le> hw"
    let ?st = "(client_connected c hw)\<lparr>tick1 := start,
                 trace := trace (client_connected c hw) @ [Xtimer_now_usec start]\<rparr>"
    let ?fin = "case snd (stream_loop ?st env) of None \<Rightarrow> [] | Some r \<Rightarrow> [Sock_disconnect Global_sock]"
    let ?ws = "map (\<lambda>(t, w). Sock_write Global_sock (replicate 2048 97) w) (executed env)"
    obtain evs where evs: "trace (fst (stream_loop ?st env)) = trace ?st @ evs"
      using stream_loop_extends by blast
    have tr: \<open>trace (fst (test_tcp_client c hw start env)) =
              [Sock_connect Global_sock ''192.168.1.102'' 12344 c, Puts ''Sending "Hello!"'',
               Sock_write Global_sock hello hw, Xtimer_now_usec start] @ evs @ ?fin\<close>
      unfolding client_trace [OF c hw] evs by (simp add: client_connected_def)
    have all: "filter is_write (trace (fst (test_tcp_client c hw start env))) =
                Sock_write Global_sock hello hw # ?ws"
      using client_writes [OF c hw, of start env] by (simp add: buf_size_def)
    then have ws: "filter is_write (evs @ ?fin) = ?ws"
      unfolding tr by simp
    have "(\<exists>r. snd (test_tcp_client c hw start env) = Returned r) \<longrightarrow> env \<noteq> []"
      using c hw by (auto simp: client_returned)
    then have ne: "(env \<noteq> [] \<or> (\<exists>r. snd (test_tcp_client c hw start env) = Returned r)) \<longrightarrow> ?ws \<noteq> []"
      by (auto simp: executed_Nil_iff)
    have ret: "r < 0 \<and> (\<exists>evs'. evs @ ?fin = evs' @ [Sock_write Global_sock (replicate 2048 97) r,
                                                 Puts ''Errored on write'',
                                                 Sock_disconnect Global_sock])"
      if "snd (test_tcp_client c hw start env) = Returned r" for r
    proof -
      from that have r: "snd (stream_loop ?st env) = Some r"
        by (simp add: client_streaming [OF c hw] Let_def split: option.splits)
      from stream_loop_exit_trace [OF r] obtain evs' where
        "trace (fst (stream_loop ?st env)) =
           trace ?st @ evs' @ [Sock_write Global_sock (buf ?st) r, Puts ''Errored on write'']"
        by blast
      then have "evs = evs' @ [Sock_write Global_sock (buf ?st) r, Puts ''Errored on write'']"
        unfolding evs by simp
      moreover have "buf ?st = replicate 2048 97"
        by (simp add: client_connected_def client_init_def buf_size_def)
      moreover have "?fin = [Sock_disconnect Global_sock]"
        by (simp add: r)
      ultimately have "evs @ ?fin = evs' @ [Sock_write Global_sock (replicate 2048 97) r,
           Puts ''Errored on write'', Sock_disconnect Global_sock]"
        by simp
      with stream_loop_exit_negative [OF r] show ?thesis by blast
    qed
    show \<open>\<exists>evs ws.
            trace (fst (test_tcp_client c hw start env)) =
              [Sock_connect Global_sock ''192.168.1.102'' 12344 c, Puts ''Sending "Hello!"'',
               Sock_write Global_sock hello hw, Xtimer_now_usec start] @ evs
            \<and> ws = map (\<lambda>(t, w). Sock_write Global_sock (replicate 2048 97) w) (executed env)
            \<and> filter is_write evs = ws
            \<and> filter is_write (trace (fst (test_tcp_client c hw start env))) =
                Sock_write Global_sock hello hw # ws
            \<and> ((env \<noteq> [] \<or> (\<exists>r. snd (test_tcp_client c hw start env) = Returned r)) \<longrightarrow> ws \<noteq> [])
            \<and> (\<forall>r. snd (test_tcp_client c hw start env) = Returned r \<longrightarrow>
                 r < 0 \<and> (\<exists>evs'. evs = evs' @ [Sock_write Global_sock (replicate 2048 97) r,
                                                 Puts ''Errored on write'',
                                                 Sock_disconnect Global_sock]))\<close>
      using tr ws all ne ret by blast
  }
qed

text \<open>
  Witness for the amended C7: a greeting write that returns \<open>-5\<close>; and one that
  returns 7, followed by a stream write that succeeds and one that returns \<open>-1\<close>.
\<close>

theorem stream_entered_after_good_handshake_witness:
  \<open>(0 :: int) \<le> 0 \<and> (- 5 :: int) < 0
   \<and> snd (test_tcp_client 0 (- 5) 0 [(5, 2048)]) = Returned (- 5)
   \<and> trace (fst (test_tcp_client 0 (- 5) 0 [(5, 2048)])) =
        [Sock_connect Global_sock ''192.168.1.102'' 12344 0, Puts ''Sending "Hello!"'',
         Sock_write Global_sock hello (- 5), Puts ''Errored on write'',
         Sock_disconnect Global_sock]
   \<and> filter is_write (trace (fst (test_tcp_client 0 (- 5) 0 [(5, 2048)]))) =
        [Sock_write Global_sock hello (- 5)]
   \<and> (0 :: int) \<le> 7
   \<and> trace (fst (test_tcp_client 0 7 0 [(5, 2048), (9, - 1)])) =
        [Sock_connect Global_sock ''192.168.1.102'' 12344 0, Puts ''Sending "Hello!"'',
         Sock_write Global_sock hello 7, Xtimer_now_usec 0]
        @ [Xtimer_now_usec 5, Sock_write Global_sock (replicate 2048 97) 2048,
           Xtimer_now_usec 9, Sock_write Global_sock (replicate 2048 97) (- 1),
           Puts ''Errored on write'', Sock_disconnect Global_sock]
   \<and> filter is_write (trace (fst (test_tcp_client 0 7 0 [(5, 2048), (9, - 1)]))) =
        [Sock_write Global_sock hello 7, Sock_write Global_sock (replicate 2048 97) 2048,
         Sock_write Global_sock (replicate 2048 97) (- 1)]
   \<and> snd (test_tcp_client 0 7 0 [(5, 2048), (9, - 1)]) = Returned (- 1)\<close>
  using stream_entered_after_good_handshake [of 0 "- 5" 0 "[(5, 2048)]"]
    stream_entered_after_good_handshake [of 0 7 0 "[(5, 2048), (9, - 1)]"]
  by (simp add: test_tcp_client_def emit_def client_init_def stream_loop_step buf_size_def
      del: stream_loop.simps(2))

subsection \<open>The byte counter\<close>

text \<open>
  Claim C8 says that a successful stream write adds to the counter the byte count that the
  write returned. Line 120 adds \<^verbatim>\<open>sizeof(buf)\<close>: a write that returns 100 adds 2048,
  not 100.
\<close>

theorem stream_write_adds_returned_count_counterexample:
  "0 \<le> (100 :: int)
   \<and> sentlen (fst (stream_write 100 client_init)) = sentlen client_init + 2048
   \<and> sentlen (fst (stream_write 100 client_init)) \<noteq> sentlen client_init + 100"
  by (simp add: stream_write_def emit_def client_init_def buf_size_def)

text \<open>
  Claim C8, amended. A stream write with a non-negative result does not leave the loop
  and adds exactly 2048, the size of the buffer it was given, to \<^verbatim>\<open>sentlen\<close>,
  whatever count it returned (as a 64-bit unsigned sum, so modulo \<open>2^64\<close>); a stream
  write with a negative result leaves the loop and leaves \<^verbatim>\<open>sentlen\<close> unchanged.
\<close>

theorem stream_write_adds_buffer_size:
  "(0 \<le> w \<longrightarrow>
      \<not> snd (stream_write w st)
      \<and> sentlen (fst (stream_write w st)) = sentlen st + 2048
      \<and> unat (sentlen (fst (stream_write w st))) = (unat (sentlen st) + 2048) mod 2 ^ 64)
   \<and> (w < 0 \<longrightarrow> snd (stream_write w st) \<and> sentlen (fst (stream_write w st)) = sentlen st)"
  by (simp add: stream_write_snd stream_write_sentlen buf_size_def unat_word_ariths)

text \<open>Witness for the amended C8: a write that returns 1000, and one that returns \<open>-1\<close>.\<close>

theorem stream_write_adds_buffer_size_witness:
  "(0 :: int) \<le> 1000
   \<and> \<not> snd (stream_write 1000 client_init)
   \<and> sentlen (fst (stream_write 1000 client_init)) = sentlen client_init + 2048
   \<and> unat (sentlen (fst (stream_write 1000 client_init))) = (unat (sentlen client_init) + 2048) mod 2 ^ 64
   \<and> (-1 :: int) < 0
   \<and> snd (stream_write (-1) client_init)
   \<and> sentlen (fst (stream_write (-1) client_init)) = sentlen client_init"
  using stream_write_adds_buffer_size [of 1000 client_init]
    stream_write_adds_buffer_size [of "-1" client_init]
  by (simp add: client_init_def)

subsection \<open>The filler buffer\<close>

text \<open>
  Claim C9. In the state the client is in after any script (so at the start of the stream
  phase and after any number of turns of the loop, and also when it has returned),
  \<^verbatim>\<open>buf\<close> is 2048 bytes all equal to 97; and every write in its trace carries
  either the greeting or those 2048 bytes. (Within the routine: the buffer is a global,
  and what another thread does to it is outside the model.)
\<close>

theorem filler_buffer_constant:
  "buf (fst (test_tcp_client c hw start env)) = replicate 2048 97
   \<and> (Sock_write s d r \<in> set (trace (fst (test_tcp_client c hw start env))) \<longrightarrow>
        d = hello \<or> d = replicate 2048 97)"
proof
  show "buf (fst (test_tcp_client c hw start env)) = replicate 2048 97"
    by (simp add: client_buf buf_size_def)
  show "Sock_write s d r \<in> set (trace (fst (test_tcp_client c hw start env))) \<longrightarrow>
        d = hello \<or> d = replicate 2048 97"
  proof
    assume "Sock_write s d r \<in> set (trace (fst (test_tcp_client c hw start env)))"
    then have in_w: "Sock_write s d r \<in> set (filter is_write (trace (fst (test_tcp_client c hw start env))))"
      by simp
    show "d = hello \<or> d = replicate 2048 97"
    proof (cases "c < 0")
      case True
      with in_w show ?thesis by (simp add: client_connect_failed)
    next
      case c: False
      show ?thesis
      proof (cases "hw < 0")
        case True
        with c in_w show ?thesis
          by (simp add: client_hello_failed client_connected_def client_init_def)
      next
        case False
        with c in_w show ?thesis
          by (auto simp: client_writes buf_size_def)
      qed
    qed
  qed
qed

text \<open>Witness for C9: two successful turns and a failing one; the stream write is in the trace.\<close>

theorem filler_buffer_constant_witness:
  "buf (fst (test_tcp_client 0 7 0 [(5, 2048), (9, 2048), (11, -1)])) = replicate 2048 97
   \<and> Sock_write Global_sock (replicate 2048 97) 2048
        \<in> set (trace (fst (test_tcp_client 0 7 0 [(5, 2048), (9, 2048), (11, -1)])))
   \<and> (replicate 2048 97 = hello \<or> replicate 2048 (97 :: u8) = replicate 2048 97)"
  using filler_buffer_constant [of 0 7 0 "[(5, 2048), (9, 2048), (11, -1)]" Global_sock "replicate 2048 97" 2048]
  by (simp add: test_tcp_client_def emit_def client_init_def stream_write_def report_window_def
      buf_size_def Let_def)

subsection \<open>The report\<close>



subsection \<open>Disconnecting\<close>

text \<open>
  Claim C3. Every established connection is disconnected exactly once on every way out of
  the loop that owns it.
  \<^item> Client, connect succeeded: the trace of a client that has returned holds exactly
    one disconnect (of the global sock), and the trace of a client still in its loop none.
  \<^item> When the stream write of turn \<open>k\<close> fails after \<open>k - 1\<close> successes, the client
    returns the failing result, its writes are the greeting and those \<open>k\<close> stream writes
    (the rest of the script is not used), and it has disconnected exactly once.
  \<^item> When the write of the greeting fails, the client returns its result and has
    disconnected exactly once.
  \<^item> Server: for every successful accept in the trace, the events from that accept up to
    the next accept call hold exactly one disconnect, of the accepted handle; or none if
    the trace ends while the server is still reading from that connection.
  \<^item> When the reads of an accepted connection succeed and then one fails, the server goes
    on with its accept loop after exactly these events: the accept, the message, the
    reads, the message \<^verbatim>\<open>Disconnected\<close> and one disconnect of the accepted handle.
\<close>

theorem one_disconnect_per_connection:
  "(0 \<le> c \<longrightarrow>
      filter is_disconnect (trace (fst (test_tcp_client c hw start env))) =
        (case snd (test_tcp_client c hw start env) of
           Returned v \<Rightarrow> [Sock_disconnect Global_sock] | _ \<Rightarrow> []))
   \<and> (0 \<le> c \<and> 0 \<le> hw \<and> (\<forall>(t, w)\<in>set oks. 0 \<le> w) \<and> w < 0 \<longrightarrow>
        snd (test_tcp_client c hw start (oks @ (t, w) # rest)) = Returned w
        \<and> filter is_write (trace (fst (test_tcp_client c hw start (oks @ (t, w) # rest)))) =
            Sock_write Global_sock hello hw
              # map (\<lambda>(t, w). Sock_write Global_sock (replicate 2048 97) w) (oks @ [(t, w)])
        \<and> filter is_disconnect (trace (fst (test_tcp_client c hw start (oks @ (t, w) # rest)))) =
            [Sock_disconnect Global_sock])
   \<and> (0 \<le> c \<and> hw' < 0 \<longrightarrow>
        snd (test_tcp_client c hw' start env) = Returned hw'
        \<and> filter is_disconnect (trace (fst (test_tcp_client c hw' start env))) =
            [Sock_disconnect Global_sock])
   \<and> (fst (test_tcp_server l accs rs) = p @ Sock_accept a h # q \<and> 0 \<le> a \<longrightarrow>
        filter is_disconnect (takeWhile (\<lambda>e. \<not> is_accept e) q) =
          (if snd (test_tcp_server l accs rs) = In_read h \<and> filter is_accept q = [] then []
           else [Sock_disconnect h]))
   \<and> (0 \<le> l \<and> 0 \<le> a' \<and> (\<forall>r\<in>set roks. 0 \<le> r) \<and> r' < 0 \<longrightarrow>
        test_tcp_server l ((a', h') # accs') (roks @ r' # rs') =
          accept_loop
            ([Sock_listen 12345 SOCK_QUEUE_LEN l, Puts ''Listening on port 12345'',
              Sock_accept a' h', Puts ''Reading data'']
             @ map (Sock_read h' 2048) roks
             @ [Sock_read h' 2048 r', Puts ''Disconnected'', Sock_disconnect h'])
            accs' rs')"
proof (intro conjI impI)
  assume "0 \<le> c"
  then show "filter is_disconnect (trace (fst (test_tcp_client c hw start env))) =
        (case snd (test_tcp_client c hw start env) of
           Returned v \<Rightarrow> [Sock_disconnect Global_sock] | _ \<Rightarrow> [])"
    by (rule client_disconnects)
next
  assume a: "0 \<le> c \<and> 0 \<le> hw \<and> (\<forall>(t, w)\<in>set oks. 0 \<le> w) \<and> w < 0"
  let ?env = "oks @ (t, w) # rest"
  from a have c: "0 \<le> c" and hw: "0 \<le> hw" and oks: "\<forall>(t, w)\<in>set oks. 0 \<le> w" and w: "w < 0"
    by simp_all
  show ret: "snd (test_tcp_client c hw start ?env) = Returned w"
    by (simp add: client_returned [OF c hw] dropWhile_first_failure [OF oks w])
  show "filter is_write (trace (fst (test_tcp_client c hw start ?env))) =
            Sock_write Global_sock hello hw
              # map (\<lambda>(t, w). Sock_write Global_sock (replicate 2048 97) w) (oks @ [(t, w)])"
    by (simp add: client_writes [OF c hw] executed_first_failure [OF oks w] buf_size_def)
  show "filter is_disconnect (trace (fst (test_tcp_client c hw start ?env))) =
            [Sock_disconnect Global_sock]"
    by (simp add: client_disconnects [OF c] ret)
next
  assume a: "0 \<le> c \<and> hw' < 0"
  then show "snd (test_tcp_client c hw' start env) = Returned hw'"
    by (simp add: client_hello_failed)
  with a show "filter is_disconnect (trace (fst (test_tcp_client c hw' start env))) =
            [Sock_disconnect Global_sock]"
    by (simp add: client_disconnects)
next
  assume a: "fst (test_tcp_server l accs rs) = p @ Sock_accept a h # q \<and> 0 \<le> a"
  let ?hd = "[Sock_listen 12345 SOCK_QUEUE_LEN l, Puts ''Listening on port 12345'']"
  have l: "0 \<le> l"
  proof (rule ccontr)
    assume "\<not> 0 \<le> l"
    with a have "[Sock_listen 12345 SOCK_QUEUE_LEN l, Puts ''Error creating listening queue'']
        = p @ Sock_accept a h # q"
      by (simp add: test_tcp_server_def)
    then have "set [Sock_listen 12345 SOCK_QUEUE_LEN l, Puts ''Error creating listening queue'']
        = set (p @ Sock_accept a h # q)"
      by (rule arg_cong)
    then show False by auto
  qed
  from a have dec: "?hd @ fst (accept_loop [] accs rs) = p @ Sock_accept a h # q"
    by (simp add: server_from_loop [OF l])
  have "Sock_accept a h \<notin> set ?hd" by simp
  from split_after [OF dec this]
  obtain p' where "fst (accept_loop [] accs rs) = p' @ Sock_accept a h # q"
    by auto
  from disconnect_after_drain [OF this] a
  show "filter is_disconnect (takeWhile (\<lambda>e. \<not> is_accept e) q) =
          (if snd (test_tcp_server l accs rs) = In_read h \<and> filter is_accept q = [] then []
           else [Sock_disconnect h])"
    by (simp add: server_from_loop [OF l])
next
  assume a: "0 \<le> l \<and> 0 \<le> a' \<and> (\<forall>r\<in>set roks. 0 \<le> r) \<and> r' < 0"
  then show "test_tcp_server l ((a', h') # accs') (roks @ r' # rs') =
          accept_loop
            ([Sock_listen 12345 SOCK_QUEUE_LEN l, Puts ''Listening on port 12345'',
              Sock_accept a' h', Puts ''Reading data'']
             @ map (Sock_read h' 2048) roks
             @ [Sock_read h' 2048 r', Puts ''Disconnected'', Sock_disconnect h'])
            accs' rs'"
    using accept_loop_drained [of a' roks r'
        "[Sock_listen 12345 SOCK_QUEUE_LEN l, Puts ''Listening on port 12345'']" h' accs' rs']
    by (simp add: test_tcp_server_def buf_size_def del: accept_loop.simps)
qed

text \<open>
  Witness for C3: the fifth stream write fails after four writes of 2048 bytes; a failed
  greeting; a server connection closed by a failed read and followed by a second accept.
\<close>

theorem one_disconnect_per_connection_witness:
  "(0 :: int) \<le> 0
   \<and> filter is_disconnect (trace (fst (test_tcp_client 0 7 0 [(1, 2048), (2, -1)]))) =
        [Sock_disconnect Global_sock]
   \<and> (0 :: int) \<le> 7
   \<and> list_all (\<lambda>(t, w). 0 \<le> w) [(1 :: u32, 2048 :: int), (2, 2048), (3, 2048), (4, 2048)]
   \<and> (-1 :: int) < 0
   \<and> snd (test_tcp_client 0 7 0 ([(1, 2048), (2, 2048), (3, 2048), (4, 2048)] @ (5, -1) # [(6, 2048)]))
        = Returned (-1)
   \<and> filter is_write (trace (fst (test_tcp_client 0 7 0
          ([(1, 2048), (2, 2048), (3, 2048), (4, 2048)] @ (5, -1) # [(6, 2048)])))) =
        Sock_write Global_sock hello 7
          # map (\<lambda>(t, w). Sock_write Global_sock (replicate 2048 97) w)
              ([(1, 2048), (2, 2048), (3, 2048), (4, 2048)] @ [(5, -1)])
   \<and> filter is_disconnect (trace (fst (test_tcp_client 0 7 0
          ([(1, 2048), (2, 2048), (3, 2048), (4, 2048)] @ (5, -1) # [(6, 2048)])))) =
        [Sock_disconnect Global_sock]
   \<and> (-3 :: int) < 0
   \<and> snd (test_tcp_client 0 (-3) 0 [(1, 2048), (2, -1)]) = Returned (-3)
   \<and> filter is_disconnect (trace (fst (test_tcp_client 0 (-3) 0 [(1, 2048), (2, -1)]))) =
        [Sock_disconnect Global_sock]
   \<and> fst (test_tcp_server 0 [(0, Queued 1), (0, Queued 2)] [10, -1]) =
        [Sock_listen 12345 SOCK_QUEUE_LEN 0, Puts ''Listening on port 12345'']
        @ Sock_accept 0 (Queued 1)
        # [Puts ''Reading data'', Sock_read (Queued 1) 2048 10, Sock_read (Queued 1) 2048 (-1),
           Puts ''Disconnected'', Sock_disconnect (Queued 1), Sock_accept 0 (Queued 2),
           Puts ''Reading data'']
   \<and> filter is_disconnect (takeWhile (\<lambda>e. \<not> is_accept e)
         [Puts ''Reading data'', Sock_read (Queued 1) 2048 10, Sock_read (Queued 1) 2048 (-1),
          Puts ''Disconnected'', Sock_disconnect (Queued 1), Sock_accept 0 (Queued 2),
          Puts ''Reading data''])
       = [Sock_disconnect (Queued 1)]
   \<and> list_all (\<lambda>r. 0 \<le> r) [10 :: int]
   \<and> test_tcp_server 0 ((0, Queued 1) # [(0, Queued 2)]) ([10] @ (-1) # []) =
        accept_loop
          ([Sock_listen 12345 SOCK_QUEUE_LEN 0, Puts ''Listening on port 12345'',
            Sock_accept 0 (Queued 1), Puts ''Reading data'']
           @ map (Sock_read (Queued 1) 2048) [10]
           @ [Sock_read (Queued 1) 2048 (-1), Puts ''Disconnected'', Sock_disconnect (Queued 1)])
          [(0, Queued 2)] []"
  using one_disconnect_per_connection [where c = 0 and hw = 7 and start = 0
      and env = "[(1, 2048), (2, -1)]"
      and oks = "[(1, 2048), (2, 2048), (3, 2048), (4, 2048)]" and t = 5 and w = "-1"
      and rest = "[(6, 2048)]" and hw' = "-3"
      and l = 0 and accs = "[(0, Queued 1), (0, Queued 2)]" and rs = "[10, -1]"
      and p = "[Sock_listen 12345 SOCK_QUEUE_LEN 0, Puts ''Listening on port 12345'']"
      and a = 0 and h = "Queued 1"
      and q = "[Puts ''Reading data'', Sock_read (Queued 1) 2048 10, Sock_read (Queued 1) 2048 (-1),
           Puts ''Disconnected'', Sock_disconnect (Queued 1), Sock_accept 0 (Queued 2),
           Puts ''Reading data'']"
      and a' = 0 and h' = "Queued 1" and accs' = "[(0, Queued 2)]" and roks = "[10]"
      and r' = "-1" and rs' = "[]"]
  by (simp add: test_tcp_server_def buf_size_def client_returned)

subsection \<open>The reported rate\<close>

text \<open>
  Claim C1 says that the rate reported at the end of a window is the rate of the
  specification for the sizes of the writes that succeeded in the window. With the size
  of a write read as the byte count that the write returned (the reading of claim C8),
  this fails: line 120 counts \<^verbatim>\<open>sizeof(buf)\<close>, 2048, for every write that did
  not return an error. Three writes that each return 100, in a first window of 2000000
  microseconds, are reported as \<open>3/128\<close> megabits per second, which is the rate of
  the specification for three writes of 2048 bytes; its rate for the sizes 100, 100, 100
  is \<open>75/65536\<close>, twenty times smaller.
\<close>

theorem throughput_report_counterexample:
  \<open>trace (fst (test_tcp_client 0 7 0 [(10, 100), (20, 100), (30, 100), (2000000, 100)])) =
       [Sock_connect Global_sock ''192.168.1.102'' 12344 0, Puts ''Sending "Hello!"'',
        Sock_write Global_sock hello 7, Xtimer_now_usec 0,
        Xtimer_now_usec 10, Sock_write Global_sock (replicate 2048 97) 100,
        Xtimer_now_usec 20, Sock_write Global_sock (replicate 2048 97) 100,
        Xtimer_now_usec 30, Sock_write Global_sock (replicate 2048 97) 100,
        Xtimer_now_usec 2000000, Printf_speed (Some (3 / 128)),
        Sock_write Global_sock (replicate 2048 97) 100]
   \<and> unat (2000000 - 0 :: u32) = 2000000
   \<and> spec_rate [2048, 2048, 2048] 2000000 = 3 / 128
   \<and> spec_rate [100, 100, 100] 2000000 = 75 / 65536
   \<and> spec_rate [100, 100, 100] 2000000 / 2 ^ 20 < \<bar>3 / 128 - spec_rate [100, 100, 100] 2000000\<bar>\<close>
  by (simp add: example_first_window spec_rate_def)

text \<open>
  Claim C1, amended. The size of a write is the number of bytes that the client hands to
  it, the length of the data of the \<open>Sock_write\<close> event: 2048 for every stream
  write, whatever count the write returns. \<open>write_sizes\<close> reads the sizes of the
  successful writes off a piece of trace. The elapsed time \<open>dt\<close> is the difference
  of the two clock readings as the program forms it, an unsigned 32-bit difference of
  microsecond counts (the true elapsed time when that is below \<open>2^32\<close>
  microseconds). The sum of the sizes is below \<open>2^64\<close>, so that \<^verbatim>\<open>sentlen\<close>
  has not wrapped. The tolerance is one part in \<open>2^20\<close>: the single-precision
  rounding of the nine conversions and operations of line 109.
  \<^item> Every window between two reports, in every trace of the client: when the trace
    holds the clock reading \<open>prev\<close> and a report, then the events \<open>win\<close> with no
    report among them, then the clock reading \<open>now\<close> and the report of \<open>y\<close>,
    the difference \<open>now - prev\<close> is at least 2000000 and \<open>y\<close> is a finite value,
    the rate of the specification for the sizes of the successful writes of \<open>win\<close>
    and that difference, up to the tolerance.
  \<^item> Every first window: the same when \<open>win'\<close> follows the clock reading
    \<open>start\<close> of line 103, on entry to the loop.
  \<^item> Reports are made. The turn of \<open>(prev, w)\<close> reports and its write succeeds; in
    the turns that follow the clock stays less than 2000000 past \<open>prev\<close> and the
    writes succeed; then the clock is read as \<open>now\<close>, at least 2000000 past
    \<open>prev\<close>. The trace of the loop is then the report at \<open>prev\<close>, the writes and
    clock readings \<open>evs\<close> of the window, the reading of \<open>now\<close>, a report of a
    finite value \<open>v\<close> and the write of that turn. The sizes of the writes of the
    window are all 2048, and \<open>v\<close> is their rate up to the tolerance.
  \<^item> The same on entry to the loop, for the whole trace of the client from the connect
    on, with no write before the turns.
\<close>

theorem throughput_report:
  \<open>(trace (fst (test_tcp_client c hw start env)) =
        pre @ [Xtimer_now_usec prev, Printf_speed x] @ win @ [Xtimer_now_usec now, Printf_speed y] @ post
      \<and> \<not> list_ex is_report win \<and> sum_list (write_sizes win) < 2 ^ 64 \<longrightarrow>
      2000000 \<le> unat (now - prev)
      \<and> (\<exists>v. y = Some v
           \<and> \<bar>v - spec_rate (write_sizes win) (unat (now - prev))\<bar>
               \<le> spec_rate (write_sizes win) (unat (now - prev)) / 2 ^ 20))
   \<and> (trace (fst (test_tcp_client c hw start env)) =
        [Sock_connect Global_sock ''192.168.1.102'' 12344 c, Puts ''Sending "Hello!"'',
         Sock_write Global_sock hello hw, Xtimer_now_usec start]
        @ win' @ [Xtimer_now_usec now', Printf_speed y'] @ post'
      \<and> \<not> list_ex is_report win' \<and> sum_list (write_sizes win') < 2 ^ 64 \<longrightarrow>
      2000000 \<le> unat (now' - start)
      \<and> (\<exists>v. y' = Some v
           \<and> \<bar>v - spec_rate (write_sizes win') (unat (now' - start))\<bar>
               \<le> spec_rate (write_sizes win') (unat (now' - start)) / 2 ^ 20))
   \<and> (length (buf st) = 2048 \<and> 2000 * 1000 \<le> prev - tick1 st \<and> 0 \<le> w
      \<and> (\<forall>(t, w)\<in>set turns. t - prev < 2000 * 1000 \<and> 0 \<le> w)
      \<and> 2000 * 1000 \<le> now - prev \<and> 2048 * (1 + length turns) < 2 ^ 64 \<longrightarrow>
      (\<exists>x v evs.
         evs = Sock_write Global_sock (buf st) w
                 # concat (map (\<lambda>(t, w). [Xtimer_now_usec t, Sock_write Global_sock (buf st) w]) turns)
         \<and> trace (fst (stream_loop st ((prev, w) # turns @ [(now, wl)]))) =
             trace st @ [Xtimer_now_usec prev, Printf_speed x] @ evs
               @ [Xtimer_now_usec now, Printf_speed (Some v)]
               @ (if wl < 0 then [Sock_write Global_sock (buf st) wl, Puts ''Errored on write'']
                  else [Sock_write Global_sock (buf st) wl])
         \<and> write_sizes evs = replicate (1 + length turns) 2048
         \<and> \<bar>v - spec_rate (write_sizes evs) (unat (now - prev))\<bar>
             \<le> spec_rate (write_sizes evs) (unat (now - prev)) / 2 ^ 20))
   \<and> (0 \<le> c \<and> 0 \<le> hw
      \<and> (\<forall>(t, w)\<in>set turns'. t - start < 2000 * 1000 \<and> 0 \<le> w)
      \<and> 2000 * 1000 \<le> now' - start \<and> 2048 * length turns' < 2 ^ 64 \<longrightarrow>
      (\<exists>v evs.
         evs = concat (map (\<lambda>(t, w). [Xtimer_now_usec t,
                                     Sock_write Global_sock (replicate 2048 97) w]) turns')
         \<and> trace (fst (test_tcp_client c hw start (turns' @ [(now', wl')]))) =
             [Sock_connect Global_sock ''192.168.1.102'' 12344 c, Puts ''Sending "Hello!"'',
              Sock_write Global_sock hello hw, Xtimer_now_usec start] @ evs
               @ [Xtimer_now_usec now', Printf_speed (Some v)]
               @ (if wl' < 0 then [Sock_write Global_sock (replicate 2048 97) wl',
                                   Puts ''Errored on write'', Sock_disconnect Global_sock]
                  else [Sock_write Global_sock (replicate 2048 97) wl'])
         \<and> write_sizes evs = replicate (length turns') 2048
         \<and> \<bar>v - spec_rate (write_sizes evs) (unat (now' - start))\<bar>
             \<le> spec_rate (write_sizes evs) (unat (now' - start)) / 2 ^ 20))\<close>
proof -
  have 1: "2000000 \<le> unat (d - k)
      \<and> (\<exists>v. z = Some v
           \<and> \<bar>v - spec_rate (write_sizes evs) (unat (d - k))\<bar>
               \<le> spec_rate (write_sizes evs) (unat (d - k)) / 2 ^ 20)"
    if "z = speed (of_nat (sum_list (write_sizes evs))) (d - k) \<and> 2000 * 1000 \<le> d - k"
      and "sum_list (write_sizes evs) < 2 ^ 64" for z evs d k
    using that rate_within_tolerance [of z "write_sizes evs" "d - k"] by blast
  show ?thesis
  proof (intro conjI impI; (elim conjE)?)
    assume "trace (fst (test_tcp_client c hw start env)) =
        pre @ [Xtimer_now_usec prev, Printf_speed x] @ win @ [Xtimer_now_usec now, Printf_speed y] @ post"
      and "\<not> list_ex is_report win" and n: "sum_list (write_sizes win) < 2 ^ 64"
    from 1 [OF client_next_window [OF this(1,2)] n]
    show "2000000 \<le> unat (now - prev)"
      and "\<exists>v. y = Some v
           \<and> \<bar>v - spec_rate (write_sizes win) (unat (now - prev))\<bar>
               \<le> spec_rate (write_sizes win) (unat (now - prev)) / 2 ^ 20"
      by simp_all
  next
    assume \<open>trace (fst (test_tcp_client c hw start env)) =
        [Sock_connect Global_sock ''192.168.1.102'' 12344 c, Puts ''Sending "Hello!"'',
         Sock_write Global_sock hello hw, Xtimer_now_usec start]
        @ win' @ [Xtimer_now_usec now', Printf_speed y'] @ post'\<close>
      and "\<not> list_ex is_report win'" and n: "sum_list (write_sizes win') < 2 ^ 64"
    from 1 [OF client_first_window [OF this(1,2)] n]
    show "2000000 \<le> unat (now' - start)"
      and "\<exists>v. y' = Some v
           \<and> \<bar>v - spec_rate (write_sizes win') (unat (now' - start))\<bar>
               \<le> spec_rate (write_sizes win') (unat (now' - start)) / 2 ^ 20"
      by simp_all
  next
    assume "length (buf st) = 2048" "2000 * 1000 \<le> prev - tick1 st" "0 \<le> w"
      "\<forall>(t, w)\<in>set turns. t - prev < 2000 * 1000 \<and> 0 \<le> w"
      "2000 * 1000 \<le> now - prev" "2048 * (1 + length turns) < 2 ^ 64"
    then show "\<exists>x v evs.
         evs = Sock_write Global_sock (buf st) w
                 # concat (map (\<lambda>(t, w). [Xtimer_now_usec t, Sock_write Global_sock (buf st) w]) turns)
         \<and> trace (fst (stream_loop st ((prev, w) # turns @ [(now, wl)]))) =
             trace st @ [Xtimer_now_usec prev, Printf_speed x] @ evs
               @ [Xtimer_now_usec now, Printf_speed (Some v)]
               @ (if wl < 0 then [Sock_write Global_sock (buf st) wl, Puts ''Errored on write'']
                  else [Sock_write Global_sock (buf st) wl])
         \<and> write_sizes evs = replicate (1 + length turns) 2048
         \<and> \<bar>v - spec_rate (write_sizes evs) (unat (now - prev))\<bar>
             \<le> spec_rate (write_sizes evs) (unat (now - prev)) / 2 ^ 20"
      by (rule window_after_report)
  next
    assume "0 \<le> c" "0 \<le> hw" "\<forall>(t, w)\<in>set turns'. t - start < 2000 * 1000 \<and> 0 \<le> w"
      "2000 * 1000 \<le> now' - start" "2048 * length turns' < 2 ^ 64"
    then show \<open>\<exists>v evs.
         evs = concat (map (\<lambda>(t, w). [Xtimer_now_usec t,
                                     Sock_write Global_sock (replicate 2048 97) w]) turns')
         \<and> trace (fst (test_tcp_client c hw start (turns' @ [(now', wl')]))) =
             [Sock_connect Global_sock ''192.168.1.102'' 12344 c, Puts ''Sending "Hello!"'',
              Sock_write Global_sock hello hw, Xtimer_now_usec start] @ evs
               @ [Xtimer_now_usec now', Printf_speed (Some v)]
               @ (if wl' < 0 then [Sock_write Global_sock (replicate 2048 97) wl',
                                   Puts ''Errored on write'', Sock_disconnect Global_sock]
                  else [Sock_write Global_sock (replicate 2048 97) wl'])
         \<and> write_sizes evs = replicate (length turns') 2048
         \<and> \<bar>v - spec_rate (write_sizes evs) (unat (now' - start))\<bar>
             \<le> spec_rate (write_sizes evs) (unat (now' - start)) / 2 ^ 20\<close>
      by (rule first_window)
  qed
qed

text \<open>
  Witness for the amended C1: three writes in the first window, which ends with the report
  at 2000000, and two writes in the next, which ends with the report at 4000000; every
  write returns 100 but the last one. The rates \<open>3/128\<close> and \<open>1/64\<close> are those
  of three and two writes of 2048 bytes in 2000000 microseconds.
\<close>

theorem throughput_report_witness:
  \<open>trace (fst (test_tcp_client 0 7 0
        [(10, 100), (20, 100), (30, 100), (2000000, 100), (2000010, 100), (4000000, - 1)])) =
      [Sock_connect Global_sock ''192.168.1.102'' 12344 0, Puts ''Sending "Hello!"'',
       Sock_write Global_sock hello 7, Xtimer_now_usec 0,
       Xtimer_now_usec 10, Sock_write Global_sock (replicate 2048 97) 100,
       Xtimer_now_usec 20, Sock_write Global_sock (replicate 2048 97) 100,
       Xtimer_now_usec 30, Sock_write Global_sock (replicate 2048 97) 100]
      @ [Xtimer_now_usec 2000000, Printf_speed (Some (3 / 128))]
      @ [Sock_write Global_sock (replicate 2048 97) 100,
         Xtimer_now_usec 2000010, Sock_write Global_sock (replicate 2048 97) 100]
      @ [Xtimer_now_usec 4000000, Printf_speed (Some (1 / 64))]
      @ [Sock_write Global_sock (replicate 2048 97) (- 1), Puts ''Errored on write'',
         Sock_disconnect Global_sock]
   \<and> \<not> list_ex is_report [Sock_write Global_sock (replicate 2048 97) 100,
         Xtimer_now_usec 2000010, Sock_write Global_sock (replicate 2048 97) 100]
   \<and> write_sizes [Sock_write Global_sock (replicate 2048 97) 100,
         Xtimer_now_usec 2000010, Sock_write Global_sock (replicate 2048 97) 100] = [2048, 2048]
   \<and> sum_list [2048, 2048 :: nat] < 2 ^ 64
   \<and> 2000000 \<le> unat (4000000 - 2000000 :: u32)
   \<and> (\<exists>v. Some (1 / 64) = Some v
         \<and> \<bar>v - spec_rate [2048, 2048] (unat (4000000 - 2000000 :: u32))\<bar>
             \<le> spec_rate [2048, 2048] (unat (4000000 - 2000000 :: u32)) / 2 ^ 20)
   \<and> trace (fst (test_tcp_client 0 7 0
        [(10, 100), (20, 100), (30, 100), (2000000, 100), (2000010, 100), (4000000, - 1)])) =
      [Sock_connect Global_sock ''192.168.1.102'' 12344 0, Puts ''Sending "Hello!"'',
       Sock_write Global_sock hello 7, Xtimer_now_usec 0]
      @ [Xtimer_now_usec 10, Sock_write Global_sock (replicate 2048 97) 100,
         Xtimer_now_usec 20, Sock_write Global_sock (replicate 2048 97) 100,
         Xtimer_now_usec 30, Sock_write Global_sock (replicate 2048 97) 100]
      @ [Xtimer_now_usec 2000000, Printf_speed (Some (3 / 128))]
      @ [Sock_write Global_sock (replicate 2048 97) 100,
         Xtimer_now_usec 2000010, Sock_write Global_sock (replicate 2048 97) 100,
         Xtimer_now_usec 4000000, Printf_speed (Some (1 / 64)),
         Sock_write Global_sock (replicate 2048 97) (- 1), Puts ''Errored on write'',
         Sock_disconnect Global_sock]
   \<and> \<not> list_ex is_report [Xtimer_now_usec 10, Sock_write Global_sock (replicate 2048 97) 100,
         Xtimer_now_usec 20, Sock_write Global_sock (replicate 2048 97) 100,
         Xtimer_now_usec 30, Sock_write Global_sock (replicate 2048 97) 100]
   \<and> write_sizes [Xtimer_now_usec 10, Sock_write Global_sock (replicate 2048 97) 100,
         Xtimer_now_usec 20, Sock_write Global_sock (replicate 2048 97) 100,
         Xtimer_now_usec 30, Sock_write Global_sock (replicate 2048 97) 100] = [2048, 2048, 2048]
   \<and> sum_list [2048, 2048, 2048 :: nat] < 2 ^ 64
   \<and> 2000000 \<le> unat (2000000 - 0 :: u32)
   \<and> (\<exists>v. Some (3 / 128) = Some v
         \<and> \<bar>v - spec_rate [2048, 2048, 2048] (unat (2000000 - 0 :: u32))\<bar>
             \<le> spec_rate [2048, 2048, 2048] (unat (2000000 - 0 :: u32)) / 2 ^ 20)
   \<and> length (buf (client_init\<lparr>sentlen := 6144\<rparr>)) = 2048
   \<and> (2000 * 1000 :: u32) \<le> 2000000 - tick1 (client_init\<lparr>sentlen := 6144\<rparr>)
   \<and> (0 :: int) \<le> 100
   \<and> list_all (\<lambda>(t, w). t - 2000000 < (2000 * 1000 :: u32) \<and> (0 :: int) \<le> w) [(2000010, 100)]
   \<and> (2000 * 1000 :: u32) \<le> 4000000 - 2000000
   \<and> (2048 :: nat) * (1 + length [(2000010 :: u32, 100 :: int)]) < 2 ^ 64
   \<and> (\<exists>x v. trace (fst (stream_loop (client_init\<lparr>sentlen := 6144\<rparr>)
                  ((2000000, 100) # [(2000010, 100)] @ [(4000000, - 1)]))) =
             trace (client_init\<lparr>sentlen := 6144\<rparr>) @ [Xtimer_now_usec 2000000, Printf_speed x]
               @ [Sock_write Global_sock (replicate 2048 97) 100,
                  Xtimer_now_usec 2000010, Sock_write Global_sock (replicate 2048 97) 100]
               @ [Xtimer_now_usec 4000000, Printf_speed (Some v)]
               @ [Sock_write Global_sock (replicate 2048 97) (- 1), Puts ''Errored on write'']
         \<and> \<bar>v - spec_rate [2048, 2048] (unat (4000000 - 2000000 :: u32))\<bar>
             \<le> spec_rate [2048, 2048] (unat (4000000 - 2000000 :: u32)) / 2 ^ 20)
   \<and> (0 :: int) \<le> 0 \<and> (0 :: int) \<le> 7
   \<and> list_all (\<lambda>(t, w). t - 0 < (2000 * 1000 :: u32) \<and> (0 :: int) \<le> w)
        [(10, 100), (20, 100), (30, 100)]
   \<and> (2000 * 1000 :: u32) \<le> 2000000 - 0
   \<and> (2048 :: nat) * length [(10 :: u32, 100 :: int), (20, 100), (30, 100)] < 2 ^ 64
   \<and> (\<exists>v. trace (fst (test_tcp_client 0 7 0 ([(10, 100), (20, 100), (30, 100)] @ [(2000000, 100)]))) =
             [Sock_connect Global_sock ''192.168.1.102'' 12344 0, Puts ''Sending "Hello!"'',
              Sock_write Global_sock hello 7, Xtimer_now_usec 0]
               @ [Xtimer_now_usec 10, Sock_write Global_sock (replicate 2048 97) 100,
                  Xtimer_now_usec 20, Sock_write Global_sock (replicate 2048 97) 100,
                  Xtimer_now_usec 30, Sock_write Global_sock (replicate 2048 97) 100]
               @ [Xtimer_now_usec 2000000, Printf_speed (Some v)]
               @ [Sock_write Global_sock (replicate 2048 97) 100]
         \<and> \<bar>v - spec_rate [2048, 2048, 2048] (unat (2000000 - 0 :: u32))\<bar>
             \<le> spec_rate [2048, 2048, 2048] (unat (2000000 - 0 :: u32)) / 2 ^ 20)\<close>
  using throughput_report [where c = 0 and hw = 7 and start = 0
      and env = "[(10, 100), (20, 100), (30, 100), (2000000, 100), (2000010, 100), (4000000, - 1)]"
      and pre = \<open>[Sock_connect Global_sock ''192.168.1.102'' 12344 0, Puts ''Sending "Hello!"'',
         Sock_write Global_sock hello 7, Xtimer_now_usec 0,
         Xtimer_now_usec 10, Sock_write Global_sock (replicate 2048 97) 100,
         Xtimer_now_usec 20, Sock_write Global_sock (replicate 2048 97) 100,
         Xtimer_now_usec 30, Sock_write Global_sock (replicate 2048 97) 100]\<close>
      and prev = 2000000 and x = "Some (3 / 128)"
      and win = "[Sock_write Global_sock (replicate 2048 97) 100,
         Xtimer_now_usec 2000010, Sock_write Global_sock (replicate 2048 97) 100]"
      and now = 4000000 and y = "Some (1 / 64)"
      and post = "[Sock_write Global_sock (replicate 2048 97) (- 1), Puts ''Errored on write'',
         Sock_disconnect Global_sock]"
      and win' = "[Xtimer_now_usec 10, Sock_write Global_sock (replicate 2048 97) 100,
         Xtimer_now_usec 20, Sock_write Global_sock (replicate 2048 97) 100,
         Xtimer_now_usec 30, Sock_write Global_sock (replicate 2048 97) 100]"
      and now' = 2000000 and y' = "Some (3 / 128)"
      and post' = "[Sock_write Global_sock (replicate 2048 97) 100,
         Xtimer_now_usec 2000010, Sock_write Global_sock (replicate 2048 97) 100,
         Xtimer_now_usec 4000000, Printf_speed (Some (1 / 64)),
         Sock_write Global_sock (replicate 2048 97) (- 1), Puts ''Errored on write'',
         Sock_disconnect Global_sock]"
      and st = "client_init\<lparr>sentlen := 6144\<rparr>" and w = 100 and turns = "[(2000010, 100)]"
      and wl = "- 1" and turns' = "[(10, 100), (20, 100), (30, 100)]" and wl' = 100]
  by (simp add: example_two_windows client_init_def buf_size_def del: stream_loop.simps(2))

end
